theory Spec2Isabelle
  imports Main "HOL-Library.AList" "HOL-Library.Sublist"
begin

section \<open>JavaScript values\<close>

text \<open>
  The style configurations, block attributes and props handled by
  \<^verbatim>\<open>packages/block-editor/src/hooks/style.js\<close> are JSON-like values. A primitive
  is \<^verbatim>\<open>undefined\<close>, \<^verbatim>\<open>null\<close>, a boolean, a number or a string; numbers
  are the integer-valued ones (in the range where JavaScript prints them as plain
  decimal numerals), strings are sequences of ASCII characters. An object is
  represented by the list of its own enumerable string-keyed properties in
  enumeration order; an array is the object whose keys are its indices.
\<close>

datatype prim = PUndefined | PNull | PBool bool | PNum int | PStr string

datatype jsval = Prim prim | Obj "(string \<times> jsval) list"

type_synonym obj = "(string \<times> jsval) list"

datatype error = TypeError

text \<open>JavaScript's truthiness test, as used by \<^verbatim>\<open>value ? ... : ...\<close>, \<^verbatim>\<open>!x\<close> and \<^verbatim>\<open>||\<close>.\<close>

fun truthy_prim :: "prim \<Rightarrow> bool" where
  "truthy_prim PUndefined = False"
| "truthy_prim PNull = False"
| "truthy_prim (PBool b) = b"
| "truthy_prim (PNum n) = (n \<noteq> 0)"
| "truthy_prim (PStr s) = (s \<noteq> [])"

fun truthy :: "jsval \<Rightarrow> bool" where
  "truthy (Prim p) = truthy_prim p"
| "truthy (Obj _) = True"

text \<open>Decimal numerals, for the conversion of a number to a string.\<close>

definition digit_char :: "nat \<Rightarrow> char" where
  "digit_char d = char_of (48 + d)"

fun dec_nat :: "nat \<Rightarrow> string" where
  "dec_nat n = (if n < 10 then [digit_char n] else dec_nat (n div 10) @ [digit_char (n mod 10)])"

declare dec_nat.simps [simp del]

definition dec_int :: "int \<Rightarrow> string" where
  "dec_int i = (if i < 0 then CHR ''-'' # dec_nat (nat (- i)) else dec_nat (nat i))"

text \<open>\<^verbatim>\<open>ToString\<close> on primitives, the conversion \<^verbatim>\<open>value + 'px'\<close> applies to its left operand.\<close>

fun to_string :: "prim \<Rightarrow> string" where
  "to_string PUndefined = ''undefined''"
| "to_string PNull = ''null''"
| "to_string (PBool b) = (if b then ''true'' else ''false'')"
| "to_string (PNum n) = dec_int n"
| "to_string (PStr s) = s"

subsection \<open>Objects\<close>

text \<open>
  \<^verbatim>\<open>o[k] = v\<close> on a plain object: an existing own property keeps its place and gets
  the new value, a new one is added at the end.
\<close>

definition set_prop :: "string \<Rightarrow> jsval \<Rightarrow> obj \<Rightarrow> obj" where
  "set_prop k v ob = AList.update k v ob"

text \<open>\<^verbatim>\<open>o.k\<close> for a key that no prototype defines: the own property, or \<^verbatim>\<open>undefined\<close>.\<close>

definition get_prop :: "obj \<Rightarrow> string \<Rightarrow> jsval" where
  "get_prop ob k = (case map_of ob k of None \<Rightarrow> Prim PUndefined | Some v \<Rightarrow> v)"

text \<open>
  The own enumerable string-keyed properties of a value, as lodash's \<^verbatim>\<open>entries\<close> and the
  object spread \<^verbatim>\<open>{ ...v }\<close> enumerate them: the properties of an object, the indexed
  characters of a string, nothing for any other primitive.
\<close>

fun entries :: "jsval \<Rightarrow> (string \<times> jsval) list" where
  "entries (Obj es) = es"
| "entries (Prim (PStr s)) = map (\<lambda>i. (dec_nat i, Prim (PStr [s ! i]))) [0..<length s]"
| "entries (Prim _) = []"

text \<open>\<^verbatim>\<open>{ ...target, ...source }\<close>, one property assignment after the other.\<close>

definition assign_all :: "obj \<Rightarrow> (string \<times> jsval) list \<Rightarrow> obj" where
  "assign_all target source = fold (\<lambda>(k, v). set_prop k v) source target"

definition spread2 :: "jsval \<Rightarrow> jsval \<Rightarrow> obj" where
  "spread2 a b = assign_all (assign_all [] (entries a)) (entries b)"

text \<open>lodash's \<^verbatim>\<open>mapKeys(object, (value, key) => f(key))\<close>.\<close>

definition mapKeys :: "obj \<Rightarrow> (string \<Rightarrow> string) \<Rightarrow> obj" where
  "mapKeys ob f = fold (\<lambda>(k, v). set_prop (f k) v) ob []"

text \<open>lodash's \<^verbatim>\<open>isObject\<close>.\<close>

fun isObject :: "jsval \<Rightarrow> bool" where
  "isObject (Obj _) = True"
| "isObject (Prim _) = False"

section \<open>lodash's kebabCase on ASCII strings\<close>

text \<open>
  \<^verbatim>\<open>kebabCase\<close> removes apostrophes, splits the string into words, lower-cases each
  word and joins them with \<^verbatim>\<open>-\<close>. The words are the matches of \<^verbatim>\<open>reAsciiWord\<close>, or of
  \<^verbatim>\<open>reUnicodeWord\<close> when \<^verbatim>\<open>reHasUnicodeWord\<close> finds a case change, a letter next to
  a digit or a character that is neither alphanumeric nor a space. The character
  classes below are those regular expressions restricted to ASCII, where
  deburring changes nothing; a character that is neither a letter nor a digit is
  a break character.
\<close>

definition isUpper :: "char \<Rightarrow> bool" where
  "isUpper c = (65 \<le> (of_char c :: nat) \<and> (of_char c :: nat) \<le> 90)"

definition isLower :: "char \<Rightarrow> bool" where
  "isLower c = (97 \<le> (of_char c :: nat) \<and> (of_char c :: nat) \<le> 122)"

definition isDigit :: "char \<Rightarrow> bool" where
  "isDigit c = (48 \<le> (of_char c :: nat) \<and> (of_char c :: nat) \<le> 57)"

definition isBreak :: "char \<Rightarrow> bool" where
  "isBreak c = (\<not> isUpper c \<and> \<not> isLower c \<and> \<not> isDigit c)"

definition toLowerCase :: "string \<Rightarrow> string" where
  "toLowerCase s = map (\<lambda>c. if isUpper c then char_of ((of_char c :: nat) + 32) else c) s"

text \<open>\<^verbatim>\<open>reHasUnicodeWord = /[a-z][A-Z]|[A-Z]{2}[a-z]|[0-9][a-zA-Z]|[a-zA-Z][0-9]|[^a-zA-Z0-9 ]/\<close>\<close>

fun hasUnicodeWord :: "string \<Rightarrow> bool" where
  "hasUnicodeWord [] = False"
| "hasUnicodeWord (c # cs) =
     ((isBreak c \<and> c \<noteq> CHR '' '')
      \<or> (case cs of
            [] \<Rightarrow> False
          | d # ds \<Rightarrow>
              (isLower c \<and> isUpper d)
              \<or> (isDigit c \<and> (isLower d \<or> isUpper d))
              \<or> ((isLower c \<or> isUpper c) \<and> isDigit d)
              \<or> (isUpper c \<and> isUpper d \<and> (case ds of [] \<Rightarrow> False | e # _ \<Rightarrow> isLower e)))
      \<or> hasUnicodeWord cs)"

text \<open>\<^verbatim>\<open>reAsciiWord\<close>: the maximal runs of letters and digits.\<close>

function asciiWords :: "string \<Rightarrow> string list" where
  "asciiWords [] = []"
| "asciiWords (c # cs) =
     (if isBreak c then asciiWords cs
      else takeWhile (\<lambda>x. \<not> isBreak x) (c # cs) # asciiWords (dropWhile (\<lambda>x. \<not> isBreak x) cs))"
  by pat_completeness auto
termination
  by (relation "measure length") (auto simp: length_dropWhile_le less_Suc_eq_le)

text \<open>
  The alternatives of \<^verbatim>\<open>reUnicodeWord\<close>, each tried at the start of the remaining
  string and giving the word it matches. An apostrophe never remains, so the
  optional contractions match nothing; there is no emoji in ASCII.
\<close>

definition optUpper :: "string \<Rightarrow> string \<times> string" where
  "optUpper s = (case s of [] \<Rightarrow> ([], []) | c # cs \<Rightarrow> if isUpper c then ([c], cs) else ([], s))"

text \<open>\<^verbatim>\<open>[A-Z]?[a-z]+(?=[break]|[A-Z]|$)\<close>\<close>

definition wordLower :: "string \<Rightarrow> string option" where
  "wordLower s =
     (let (u, s1) = optUpper s; l = takeWhile isLower s1; r = dropWhile isLower s1
      in if l \<noteq> [] \<and> (case r of [] \<Rightarrow> True | c # _ \<Rightarrow> isBreak c \<or> isUpper c)
         then Some (u @ l) else None)"

text \<open>\<^verbatim>\<open>[A-Z]+(?=[break]|[A-Z][a-z]|$)\<close>\<close>

definition wordUpper :: "string \<Rightarrow> string option" where
  "wordUpper s =
     (let us = takeWhile isUpper s; r = dropWhile isUpper s
      in if us = [] then None
         else (case r of
                 [] \<Rightarrow> Some us
               | c # _ \<Rightarrow>
                   if isBreak c then Some us
                   else if isLower c \<and> 2 \<le> length us then Some (butlast us)
                   else None))"

text \<open>\<^verbatim>\<open>[A-Z]?[a-z]+\<close>\<close>

definition wordMiscLower :: "string \<Rightarrow> string option" where
  "wordMiscLower s =
     (let (u, s1) = optUpper s; l = takeWhile isLower s1
      in if l \<noteq> [] then Some (u @ l) else None)"

text \<open>\<^verbatim>\<open>[A-Z]+\<close>\<close>

definition wordUppers :: "string \<Rightarrow> string option" where
  "wordUppers s = (let us = takeWhile isUpper s in if us = [] then None else Some us)"

text \<open>
  \<^verbatim>\<open>\d*(?:1ST|2ND|3RD|(?![123])\dTH)(?=\b|[a-z_])\<close> and its lower-case twin
  \<^verbatim>\<open>\d*(?:1st|2nd|3rd|(?![123])\dth)(?=\b|[A-Z_])\<close>: the digits, the two letters that
  fit the last digit, and then no digit and no letter of the same case.
\<close>

definition ordSuffix :: "bool \<Rightarrow> char \<Rightarrow> string" where
  "ordSuffix upper d =
     (if d = CHR ''1'' then (if upper then ''ST'' else ''st'')
      else if d = CHR ''2'' then (if upper then ''ND'' else ''nd'')
      else if d = CHR ''3'' then (if upper then ''RD'' else ''rd'')
      else (if upper then ''TH'' else ''th''))"

definition wordOrd :: "bool \<Rightarrow> string \<Rightarrow> string option" where
  "wordOrd upper s =
     (let ds = takeWhile isDigit s; r = dropWhile isDigit s
      in if ds = [] then None
         else if take 2 r = ordSuffix upper (last ds)
                 \<and> (case drop 2 r of
                       [] \<Rightarrow> True
                     | c # _ \<Rightarrow> \<not> isDigit c \<and> \<not> (if upper then isUpper c else isLower c))
              then Some (ds @ take 2 r) else None)"

text \<open>\<^verbatim>\<open>\d+\<close>\<close>

definition wordDigits :: "string \<Rightarrow> string option" where
  "wordDigits s = (let ds = takeWhile isDigit s in if ds = [] then None else Some ds)"

text \<open>The alternation: the first alternative that matches decides.\<close>

fun firstMatch :: "(string \<Rightarrow> string option) list \<Rightarrow> string \<Rightarrow> string option" where
  "firstMatch [] s = None"
| "firstMatch (alt # alts) s = (case alt s of Some w \<Rightarrow> Some w | None \<Rightarrow> firstMatch alts s)"

definition unicodeWord :: "string \<Rightarrow> string option" where
  "unicodeWord s =
     firstMatch [wordLower, wordUpper, wordMiscLower, wordUppers,
                 wordOrd True, wordOrd False, wordDigits] s"

text \<open>
  The global match: at each position the word found there is taken and the scan
  goes on behind it; where no alternative matches, the scan moves on by one
  character (as it does behind an empty match).
\<close>

function unicodeWords :: "string \<Rightarrow> string list" where
  "unicodeWords [] = []"
| "unicodeWords (c # cs) =
     (case unicodeWord (c # cs) of
        None \<Rightarrow> unicodeWords cs
      | Some w \<Rightarrow> w # unicodeWords (drop (max 1 (length w)) (c # cs)))"
  by pat_completeness auto
termination
  by (relation "measure length") auto

definition words :: "string \<Rightarrow> string list" where
  "words s = (if hasUnicodeWord s then unicodeWords s else asciiWords s)"

fun joinWords :: "string list \<Rightarrow> string" where
  "joinWords [] = []"
| "joinWords [w] = w"
| "joinWords (w # ws) = w @ ''-'' @ joinWords ws"

definition kebabCase :: "string \<Rightarrow> string" where
  "kebabCase s = joinWords (map toLowerCase (words (filter (\<lambda>c. c \<noteq> CHR 0x27) s)))"

section \<open>Flattening a styles configuration into CSS variables\<close>

text \<open>
  \<^verbatim>\<open>valueFormatters\<close> is the object literal \<^verbatim>\<open>{ fontSize: ... }\<close>. Reading
  \<^verbatim>\<open>valueFormatters[ key ]\<close> finds its own property \<^verbatim>\<open>fontSize\<close>, or else a member
  that every plain object inherits from \<^verbatim>\<open>Object.prototype\<close>, or else \<^verbatim>\<open>undefined\<close>.
\<close>

definition objectPrototypeKeys :: "string list" where
  "objectPrototypeKeys =
     [''constructor'', ''__defineGetter__'', ''__defineSetter__'', ''hasOwnProperty'',
      ''__lookupGetter__'', ''__lookupSetter__'', ''isPrototypeOf'',
      ''propertyIsEnumerable'', ''toString'', ''valueOf'', ''__proto__'',
      ''toLocaleString'']"

datatype formatter = FontSize | Identity | Inherited string

definition valueFormatters :: "string \<Rightarrow> formatter option" where
  "valueFormatters key =
     (if key = ''fontSize'' then Some FontSize
      else if key \<in> set objectPrototypeKeys then Some (Inherited key)
      else None)"

text \<open>
  The call \<^verbatim>\<open>formatter( value )\<close> on a leaf. \<^verbatim>\<open>fontSize\<close> is
  \<^verbatim>\<open>( value ) => ( value ? value + 'px' : value )\<close>. An inherited member is called
  with \<^verbatim>\<open>this\<close> undefined: \<^verbatim>\<open>toString\<close> answers \<^verbatim>\<open>[object Undefined]\<close>,
  \<^verbatim>\<open>constructor\<close> (that is \<^verbatim>\<open>Object\<close>) wraps the primitive in an object,
  \<^verbatim>\<open>isPrototypeOf\<close> answers \<^verbatim>\<open>false\<close> for a primitive argument; the others
  convert \<^verbatim>\<open>this\<close> to an object, and \<^verbatim>\<open>__proto__\<close> is not a function: a
  \<^verbatim>\<open>TypeError\<close> is thrown.
\<close>

fun callFormatter :: "formatter \<Rightarrow> prim \<Rightarrow> error + jsval" where
  "callFormatter FontSize v =
     Inr (Prim (if truthy_prim v then PStr (to_string v @ ''px'') else v))"
| "callFormatter Identity v = Inr (Prim v)"
| "callFormatter (Inherited name) v =
     (if name = ''toString'' then Inr (Prim (PStr ''[object Undefined]''))
      else if name = ''constructor'' then Inr (Obj (entries (Prim v)))
      else if name = ''isPrototypeOf'' then Inr (Prim (PBool False))
      else Inl TypeError)"

text \<open>The constants \<^verbatim>\<open>prefix\<close> (here \<open>pfx\<close>) and \<^verbatim>\<open>token\<close> of \<^verbatim>\<open>getCSSVariables\<close>.\<close>

definition pfx :: string where
  "pfx = ''--wp''"

definition token :: string where
  "token = ''--''"

text \<open>\<^verbatim>\<open>valueFormatters[ key ] || identity\<close>: whatever the lookup finds is truthy.\<close>

definition formatterOf :: "string \<Rightarrow> formatter" where
  "formatterOf key = (case valueFormatters key of None \<Rightarrow> Identity | Some f \<Rightarrow> f)"

text \<open>
  The body of \<^verbatim>\<open>getNestedCSSVariables\<close>: the \<^verbatim>\<open>forEach\<close> over the entries of the
  configuration, with \<^verbatim>\<open>result\<close> as it stands before each entry. An exception
  thrown by a formatter ends the whole walk.
\<close>

fun forEachEntry :: "obj \<Rightarrow> (string \<times> jsval) list \<Rightarrow> error + obj" where
  "forEachEntry result [] = Inr result"
| "forEachEntry result ((key, Prim v) # rest) =
     (case callFormatter (formatterOf key) v of
        Inl e \<Rightarrow> Inl e
      | Inr fv \<Rightarrow> forEachEntry (set_prop (kebabCase key) fv result) rest)"
| "forEachEntry result ((key, Obj config) # rest) =
     (case forEachEntry [] config of
        Inl e \<Rightarrow> Inl e
      | Inr nested \<Rightarrow>
          forEachEntry
            (assign_all (assign_all [] result)
               (mapKeys nested (\<lambda>subkey. kebabCase key @ token @ subkey)))
            rest)"

definition getNestedCSSVariables :: "jsval \<Rightarrow> error + obj" where
  "getNestedCSSVariables config = forEachEntry [] (entries config)"

text \<open>\<^verbatim>\<open>getCSSVariables( styles = {} )\<close>: the default stands in for \<^verbatim>\<open>undefined\<close> only.\<close>

definition getCSSVariables :: "jsval \<Rightarrow> error + obj" where
  "getCSSVariables styles =
     (case getNestedCSSVariables (if styles = Prim PUndefined then Obj [] else styles) of
        Inl e \<Rightarrow> Inl e
      | Inr flat \<Rightarrow> Inr (mapKeys flat (\<lambda>key. pfx @ token @ key)))"

section \<open>The block-registration filters\<close>

text \<open>
  The three support keys are constants of the sibling hooks (\<^verbatim>\<open>./color\<close>,
  \<^verbatim>\<open>./line-height\<close>, \<^verbatim>\<open>./font-size\<close>).
\<close>

datatype support_key = COLOR_SUPPORT_KEY | LINE_HEIGHT_SUPPORT_KEY | FONT_SIZE_SUPPORT_KEY

text \<open>
  Props objects are mutated in place and handed back by reference, so they live
  in a heap: a reference is an index into the list of allocated objects, valid
  when it is below the length of the list. The values of their properties are
  kept by value.
\<close>

type_synonym ref = nat

type_synonym heap = "obj list"

definition alloc :: "obj \<Rightarrow> heap \<Rightarrow> heap \<times> ref" where
  "alloc ob h = (h @ [ob], length h)"

text \<open>
  Block settings (a block type): the supports declaration, the attribute
  declarations, and the optional \<^verbatim>\<open>getEditWrapperProps\<close> function, which takes the
  block attributes and returns a reference to a props object.
\<close>

record block_settings =
  supports :: "support_key \<Rightarrow> bool"
  attributes :: obj
  getEditWrapperProps :: "(obj \<Rightarrow> heap \<Rightarrow> error + heap \<times> ref) option"

text \<open>
  Modelled from the spec: \<^verbatim>\<open>hasBlockSupport\<close> of \<^verbatim>\<open>@wordpress/blocks\<close>, which is not
  among the sources; a block type supports a feature when its supports
  declaration says so.
\<close>

definition hasBlockSupport :: "'a block_settings_scheme \<Rightarrow> support_key \<Rightarrow> bool" where
  "hasBlockSupport blockType key = supports blockType key"

definition styleSupportKeys :: "support_key list" where
  "styleSupportKeys = [COLOR_SUPPORT_KEY, LINE_HEIGHT_SUPPORT_KEY, FONT_SIZE_SUPPORT_KEY]"

definition hasStyleSupport :: "'a block_settings_scheme \<Rightarrow> bool" where
  "hasStyleSupport blockType = list_ex (\<lambda>key. hasBlockSupport blockType key) styleSupportKeys"

definition addAttribute :: "block_settings \<Rightarrow> block_settings" where
  "addAttribute settings =
     (if \<not> hasStyleSupport settings then settings
      else if \<not> truthy (get_prop (attributes settings) ''style'')
      then settings\<lparr>attributes :=
             assign_all (attributes settings)
               (entries (Obj [(''style'', Obj [(''type'', Prim (PStr ''object''))])]))\<rparr>
      else settings)"

text \<open>
  \<^verbatim>\<open>addSaveProps( props, blockType, attributes )\<close> on the heap \<open>h\<close>: \<open>props\<close> is the
  reference it is given and the reference it returns.
\<close>

definition addSaveProps :: "ref \<Rightarrow> block_settings \<Rightarrow> obj \<Rightarrow> heap \<Rightarrow> error + heap \<times> ref" where
  "addSaveProps props blockType attrs h =
     (if \<not> hasStyleSupport blockType then Inr (h, props)
      else
        let style = get_prop attrs ''style'' in
        case getCSSVariables style of
          Inl e \<Rightarrow> Inl e
        | Inr vars \<Rightarrow>
            Inr (h[props := set_prop ''style''
                              (Obj (spread2 (Obj vars) (get_prop (h ! props) ''style'')))
                              (h ! props)],
                 props))"

text \<open>
  The function \<^verbatim>\<open>addEditProps\<close> installs. It reads \<^verbatim>\<open>settings\<close> only through
  \<^verbatim>\<open>hasStyleSupport\<close>, that is through the supports declaration, which none of
  these filters changes; the settings it was installed on stand for it.
\<close>

definition editWrapperProps ::
  "block_settings \<Rightarrow> obj \<Rightarrow> heap \<Rightarrow> error + heap \<times> ref" where
  "editWrapperProps settings attrs h =
     (let (h0, props0) = alloc [] h in
      case getEditWrapperProps settings of
        None \<Rightarrow> addSaveProps props0 settings attrs h0
      | Some existingGetEditWrapperProps \<Rightarrow>
          (case existingGetEditWrapperProps attrs h0 of
             Inl e \<Rightarrow> Inl e
           | Inr (h1, props) \<Rightarrow> addSaveProps props settings attrs h1))"

definition addEditProps :: "block_settings \<Rightarrow> block_settings" where
  "addEditProps settings =
     (if \<not> hasStyleSupport settings then settings
      else settings\<lparr>getEditWrapperProps := Some (editWrapperProps settings)\<rparr>)"

section \<open>The enable-item selectors\<close>










section \<open>The navigation structure panel\<close>

text \<open>
  The element tree the component returns. The child \<open>NoChild\<close> is the value
  \<^verbatim>\<open>false\<close>, which renders nothing. The block-editor store gives the selected client
  ids and the \<^verbatim>\<open>selectBlock\<close> action; \<^verbatim>\<open>__\<close> is the translation function.
\<close>

datatype ('b, 'i, 'a) element =
    Panel "('b, 'i, 'a) element list"
  | PanelBody string "('b, 'i, 'a) element list"
  | Fragment "('b, 'i, 'a) element list"
  | BlockNavigationToolbar
  | BlockNavigationList "'b list" "'i option" 'a bool bool
  | NoChild

record ('i, 'a) block_editor_store =
  getSelectedBlockClientIds :: "'i list"
  selectBlock :: 'a

text \<open>\<^verbatim>\<open>xs[ 0 ]\<close>, \<^verbatim>\<open>undefined\<close> on the empty array.\<close>

definition first_elem :: "'i list \<Rightarrow> 'i option" where
  "first_elem xs = (case xs of [] \<Rightarrow> None | x # _ \<Rightarrow> Some x)"

definition NavigationStructurePanel ::
  "(string \<Rightarrow> string) \<Rightarrow> ('i, 'a) block_editor_store \<Rightarrow> 'b list \<Rightarrow> ('b, 'i, 'a) element" where
  "NavigationStructurePanel translate store blocks =
     (let selectedBlockClientIds = getSelectedBlockClientIds store in
      Panel
        [PanelBody (translate ''Navigation structure'')
           [if length blocks \<noteq> 0
            then Fragment
                   [BlockNavigationToolbar,
                    BlockNavigationList blocks (first_elem selectedBlockClientIds)
                      (selectBlock store) True True]
            else NoChild]])"

text \<open>
  An element renders nothing when it is \<^verbatim>\<open>false\<close> or a fragment of such children;
  panels, toolbars and lists render markup of their own.
\<close>

fun rendersNothing :: "('b, 'i, 'a) element \<Rightarrow> bool" where
  "rendersNothing NoChild = True"
| "rendersNothing (Fragment cs) = list_all rendersNothing cs"
| "rendersNothing _ = False"

section \<open>What the flattening is to produce\<close>

text \<open>
  The leaves of a configuration, each with the path of keys that reaches it, in
  enumeration order.
\<close>

fun leafEntries :: "obj \<Rightarrow> (string list \<times> prim) list" where
  "leafEntries [] = []"
| "leafEntries ((key, Prim v) # rest) = ([key], v) # leafEntries rest"
| "leafEntries ((key, Obj config) # rest) =
     map (\<lambda>(path, v). (key # path, v)) (leafEntries config) @ leafEntries rest"

text \<open>
  The generated name of a key path: the kebab-cased segments joined with \<^verbatim>\<open>--\<close>,
  behind the root token \<^verbatim>\<open>--wp--\<close>.
\<close>

fun nestedName :: "string list \<Rightarrow> string" where
  "nestedName [] = []"
| "nestedName [key] = kebabCase key"
| "nestedName (key # path) = kebabCase key @ ''--'' @ nestedName path"

definition variableName :: "string list \<Rightarrow> string" where
  "variableName path = ''--wp--'' @ nestedName path"

text \<open>
  The value recorded for a leaf: the leaf value, with the pixel unit appended when
  the key of the leaf is \<^verbatim>\<open>fontSize\<close> and the value is truthy.
\<close>

definition leafValue :: "string \<Rightarrow> prim \<Rightarrow> prim" where
  "leafValue key v =
     (if key = ''fontSize'' \<and> truthy_prim v then PStr (to_string v @ ''px'') else v)"

definition leafVariables :: "obj \<Rightarrow> (string \<times> jsval) list" where
  "leafVariables config =
     map (\<lambda>(path, v). (variableName path, Prim (leafValue (last path) v))) (leafEntries config)"

text \<open>No leaf has a key that names a member of \<^verbatim>\<open>Object.prototype\<close>.\<close>

definition ownLeafKeys :: "obj \<Rightarrow> bool" where
  "ownLeafKeys config =
     list_all (\<lambda>(path, v). last path \<notin> set objectPrototypeKeys) (leafEntries config)"

text \<open>The same list with the names as they are before the root token is put in front.\<close>

definition nestedVariables :: "obj \<Rightarrow> (string \<times> jsval) list" where
  "nestedVariables config =
     map (\<lambda>(path, v). (nestedName path, Prim (leafValue (last path) v))) (leafEntries config)"

section \<open>Keys in dash case\<close>

text \<open>
  A key is in dash case when it consists of words separated by single dashes,
  each word a non-empty run of lower-case letters, a non-empty run of digits, or
  an ordinal: digits followed by the ending that fits the last of them
  (\<^verbatim>\<open>1st\<close>, \<^verbatim>\<open>2nd\<close>, \<^verbatim>\<open>3rd\<close>, \<^verbatim>\<open>4th\<close>), which \<open>kebabCase\<close> takes for one word.
\<close>

fun splitDash :: "string \<Rightarrow> string list" where
  "splitDash [] = [[]]"
| "splitDash (c # cs) =
     (if c = CHR ''-'' then [] # splitDash cs
      else (let ws = splitDash cs in (c # hd ws) # tl ws))"

definition isOrdinal :: "string \<Rightarrow> bool" where
  "isOrdinal w =
     (let ds = takeWhile isDigit w
      in ds \<noteq> [] \<and> dropWhile isDigit w = ordSuffix False (last ds))"

definition dashWord :: "string \<Rightarrow> bool" where
  "dashWord w = (w \<noteq> [] \<and> (list_all isLower w \<or> list_all isDigit w \<or> isOrdinal w))"

definition dashCase :: "string \<Rightarrow> bool" where
  "dashCase key = list_all dashWord (splitDash key)"

text \<open>What follows a word in a dash-case key: nothing, or a dash.\<close>

definition atBoundary :: "string \<Rightarrow> bool" where
  "atBoundary s = (s = [] \<or> hd s = CHR ''-'')"

section \<open>Properties of the object operations\<close>

lemma map_of_set_prop: "map_of (set_prop k v ob) = (map_of ob)(k \<mapsto> v)"
  by (simp add: set_prop_def update_conv')

lemma keys_set_prop: "fst ` set (set_prop k v ob) = insert k (fst ` set ob)"
  by (simp add: set_prop_def dom_update)

lemma distinct_set_prop: "distinct (map fst ob) \<Longrightarrow> distinct (map fst (set_prop k v ob))"
  by (simp add: set_prop_def distinct_update)

lemma map_of_fold_set_prop:
  "map_of (fold (\<lambda>(k, v). set_prop (g k) v) xs acc)
     = map_of acc ++ map_of (rev (map (\<lambda>(k, v). (g k, v)) xs))"
proof (induction xs arbitrary: acc)
  case Nil
  then show ?case by simp
next
  case (Cons x xs)
  obtain k v where x: "x = (k, v)" by (cases x)
  show ?case
  proof -
    have "map_of (fold (\<lambda>(k, v). set_prop (g k) v) (x # xs) acc)
            = map_of (set_prop (g k) v acc) ++ map_of (rev (map (\<lambda>(k, v). (g k, v)) xs))"
      by (simp add: x Cons.IH)
    also have "\<dots> = (map_of acc)(g k \<mapsto> v) ++ map_of (rev (map (\<lambda>(k, v). (g k, v)) xs))"
      by (simp only: map_of_set_prop)
    also have "\<dots> = map_of acc ++ map_of (rev (map (\<lambda>(k, v). (g k, v)) (x # xs)))"
      by (simp add: x map_add_upd_left)
    finally show ?thesis .
  qed
qed

lemma keys_fold_set_prop:
  "fst ` set (fold (\<lambda>(k, v). set_prop (g k) v) xs acc) = fst ` set acc \<union> g ` fst ` set xs"
proof (induction xs arbitrary: acc)
  case Nil
  then show ?case by simp
next
  case (Cons x xs)
  obtain k v where x: "x = (k, v)" by (cases x)
  show ?case
    by (simp add: x Cons.IH keys_set_prop)
qed

lemma distinct_fold_set_prop:
  "distinct (map fst acc) \<Longrightarrow> distinct (map fst (fold (\<lambda>(k, v). set_prop (g k) v) xs acc))"
proof (induction xs arbitrary: acc)
  case Nil
  then show ?case by simp
next
  case (Cons x xs)
  obtain k v where x: "x = (k, v)" by (cases x)
  show ?case
    using Cons.prems by (simp add: x Cons.IH distinct_set_prop)
qed

lemma keys_mapKeys: "fst ` set (mapKeys ob f) = f ` fst ` set ob"
  by (simp add: mapKeys_def keys_fold_set_prop)

lemma distinct_mapKeys: "distinct (map fst (mapKeys ob f))"
  by (simp add: mapKeys_def distinct_fold_set_prop)

lemma map_of_mapKeys: "map_of (mapKeys ob f) = map_of (rev (map (\<lambda>(k, v). (f k, v)) ob))"
  by (simp add: mapKeys_def map_of_fold_set_prop)

lemma assign_all_fold: "assign_all t s = fold (\<lambda>(k, v). set_prop (id k) v) s t"
  by (simp add: assign_all_def)

lemma keys_assign_all: "fst ` set (assign_all t s) = fst ` set t \<union> fst ` set s"
  using keys_fold_set_prop [of id s t] by (simp add: assign_all_def)

lemma map_of_assign_all: "map_of (assign_all t s) = map_of t ++ map_of (rev s)"
  using map_of_fold_set_prop [of id s t] by (simp add: assign_all_def)

lemma distinct_assign_all: "distinct (map fst t) \<Longrightarrow> distinct (map fst (assign_all t s))"
  using distinct_fold_set_prop [of t id s] by (simp add: assign_all_def)

section \<open>Properties of the flattening\<close>

text \<open>
  C3. Every key of the mapping that \<open>getCSSVariables\<close> returns starts with the root
  token \<^verbatim>\<open>--wp--\<close>, whatever the styles configuration; the empty configuration
  flattens to the empty mapping.
\<close>

theorem getCSSVariables_keys_prefixed:
  "getCSSVariables (Obj []) = Inr []
   \<and> (getCSSVariables styles = Inr flat \<longrightarrow> (\<forall>k \<in> fst ` set flat. prefix ''--wp--'' k))"
proof
  show "getCSSVariables (Obj []) = Inr []"
    by (simp add: getCSSVariables_def getNestedCSSVariables_def mapKeys_def)
next
  show "getCSSVariables styles = Inr flat \<longrightarrow> (\<forall>k \<in> fst ` set flat. prefix ''--wp--'' k)"
  proof
    assume r: "getCSSVariables styles = Inr flat"
    then obtain nested where "flat = mapKeys nested (\<lambda>key. pfx @ token @ key)"
      by (auto simp: getCSSVariables_def split: sum.splits)
    then have "fst ` set flat = (\<lambda>key. pfx @ token @ key) ` fst ` set nested"
      by (simp add: keys_mapKeys)
    then show "\<forall>k \<in> fst ` set flat. prefix ''--wp--'' k"
      by (auto simp: pfx_def token_def)
  qed
qed

theorem getCSSVariables_keys_prefixed_witness:
  "getCSSVariables (Obj [(''fontSize'', Prim (PNum 16))]) = Inr [(''--wp--font-size'', Prim (PStr ''16px''))]
   \<and> prefix ''--wp--'' ''--wp--font-size''"
proof -
  have e: "getCSSVariables (Obj [(''fontSize'', Prim (PNum 16))]) = Inr [(''--wp--font-size'', Prim (PStr ''16px''))]"
    by code_simp
  from getCSSVariables_keys_prefixed [of "Obj [(''fontSize'', Prim (PNum 16))]" "[(''--wp--font-size'', Prim (PStr ''16px''))]"] e
  show ?thesis by simp
qed

lemma map_of_rev_distinct: "distinct (map fst xs) \<Longrightarrow> map_of (rev xs) = map_of xs"
  by (rule map_of_inject_set [THEN iffD2]) (simp_all add: rev_map [symmetric])

lemma set_prop_absent: "k \<notin> fst ` set ob \<Longrightarrow> set_prop k v ob = ob @ [(k, v)]"
  unfolding set_prop_def by (induction ob) auto

lemma get_prop_set_prop_same: "get_prop (set_prop k v ob) k = v"
  by (simp add: get_prop_def map_of_set_prop)

lemma map_of_spread2:
  "map_of (spread2 a b) = map_of (rev (entries a)) ++ map_of (rev (entries b))"
  by (simp add: spread2_def map_of_assign_all)

lemma getCSSVariables_distinct: "getCSSVariables styles = Inr vars \<Longrightarrow> distinct (map fst vars)"
  by (auto simp: getCSSVariables_def distinct_mapKeys split: sum.splits)

section \<open>Properties of the save-props filter\<close>

text \<open>What \<open>addSaveProps\<close> returns when the block type has style support, and when not.\<close>

lemma addSaveProps_supported:
  assumes "hasStyleSupport blockType"
    and "addSaveProps props blockType attrs h = Inr (h', props')"
  shows "\<exists>vars. getCSSVariables (get_prop attrs ''style'') = Inr vars
           \<and> props' = props
           \<and> h' = h[props := set_prop ''style''
                               (Obj (spread2 (Obj vars) (get_prop (h ! props) ''style'')))
                               (h ! props)]"
  using assms by (auto simp: addSaveProps_def Let_def split: sum.splits)

lemma addSaveProps_unsupported:
  "\<not> hasStyleSupport blockType \<Longrightarrow> addSaveProps props blockType attrs h = Inr (h, props)"
  by (simp add: addSaveProps_def)

text \<open>
  C10. \<open>addSaveProps\<close> returns the reference of the props object it was given. In
  the heap it leaves, every other object is as it was, and so is every property
  of the props object other than \<^verbatim>\<open>style\<close>; when the block type supports no style
  feature the heap is unchanged altogether.
\<close>

theorem addSaveProps_frame:
  assumes "addSaveProps props blockType attrs h = Inr (h', props')"
    and "props < length h"
  shows "props' = props
         \<and> length h' = length h
         \<and> (\<forall>q. q \<noteq> props \<longrightarrow> h' ! q = h ! q)
         \<and> (\<forall>k. k \<noteq> ''style'' \<longrightarrow> map_of (h' ! props') k = map_of (h ! props) k)
         \<and> (\<not> hasStyleSupport blockType \<longrightarrow> h' = h)"
proof (cases "hasStyleSupport blockType")
  case True
  from addSaveProps_supported [OF True assms(1)] obtain vars where
    p: "props' = props" and
    h: "h' = h[props := set_prop ''style''
                 (Obj (spread2 (Obj vars) (get_prop (h ! props) ''style''))) (h ! props)]"
    by blast
  show ?thesis
    using True assms(2) by (simp add: p h map_of_set_prop)
next
  case False
  with assms(1) show ?thesis
    by (simp add: addSaveProps_unsupported)
qed

theorem addSaveProps_frame_witness:
  "addSaveProps 0 \<lparr>supports = (\<lambda>key. key = COLOR_SUPPORT_KEY), attributes = [],
                    getEditWrapperProps = None\<rparr>
     [(''style'', Obj [(''color'', Obj [(''text'', Prim (PStr ''red''))])])]
     [[(''className'', Prim (PStr ''x''))]]
   = Inr ([[(''className'', Prim (PStr ''x'')),
            (''style'', Obj [(''--wp--color--text'', Prim (PStr ''red''))])]], 0)
   \<and> (0::nat) < length [[(''className'', Prim (PStr ''x''))]]
   \<and> map_of [(''className'', Prim (PStr ''x'')),
              (''style'', Obj [(''--wp--color--text'', Prim (PStr ''red''))])] ''className''
       = map_of [(''className'', Prim (PStr ''x''))] ''className''"
proof -
  let ?bt = "\<lparr>supports = (\<lambda>key. key = COLOR_SUPPORT_KEY), attributes = [],
              getEditWrapperProps = None\<rparr>"
  let ?attrs = "[(''style'', Obj [(''color'', Obj [(''text'', Prim (PStr ''red''))])])]"
  let ?h = "[[(''className'', Prim (PStr ''x''))]]"
  let ?h' = "[[(''className'', Prim (PStr ''x'')),
            (''style'', Obj [(''--wp--color--text'', Prim (PStr ''red''))])]]"
  have r: "addSaveProps 0 ?bt ?attrs ?h = Inr (?h', 0)"
    by code_simp
  have l: "(0::nat) < length ?h"
    by simp
  from addSaveProps_frame [OF r l] r l show ?thesis
    by simp
qed

text \<open>
  C4. For a block type with style support, the \<^verbatim>\<open>style\<close> mapping that
  \<open>addSaveProps\<close> leaves in the props object holds every entry of the \<^verbatim>\<open>style\<close> the
  caller supplied, with the caller's value; a generated CSS variable is found
  only under a key the caller did not supply.
\<close>

theorem addSaveProps_caller_style_wins:
  assumes "hasStyleSupport blockType"
    and "props < length h"
    and "distinct (map fst (entries (get_prop (h ! props) ''style'')))"
    and "addSaveProps props blockType attrs h = Inr (h', props')"
  shows "\<exists>vars merged.
           getCSSVariables (get_prop attrs ''style'') = Inr vars
           \<and> get_prop (h' ! props') ''style'' = Obj merged
           \<and> (\<forall>k v. map_of (entries (get_prop (h ! props) ''style'')) k = Some v
                  \<longrightarrow> map_of merged k = Some v)
           \<and> (\<forall>k. map_of (entries (get_prop (h ! props) ''style'')) k = None
                  \<longrightarrow> map_of merged k = map_of vars k)"
proof -
  let ?caller = "entries (get_prop (h ! props) ''style'')"
  from addSaveProps_supported [OF assms(1) assms(4)] obtain vars where
    v: "getCSSVariables (get_prop attrs ''style'') = Inr vars" and
    p: "props' = props" and
    h: "h' = h[props := set_prop ''style''
                 (Obj (spread2 (Obj vars) (get_prop (h ! props) ''style''))) (h ! props)]"
    by blast
  let ?merged = "spread2 (Obj vars) (get_prop (h ! props) ''style'')"
  have g: "get_prop (h' ! props') ''style'' = Obj ?merged"
    using assms(2) by (simp add: p h get_prop_set_prop_same)
  have m: "map_of ?merged = map_of vars ++ map_of ?caller"
    by (simp add: map_of_spread2 map_of_rev_distinct [OF assms(3)]
        map_of_rev_distinct [OF getCSSVariables_distinct [OF v]])
  have "\<forall>k v. map_of ?caller k = Some v \<longrightarrow> map_of ?merged k = Some v"
    by (simp add: m)
  moreover have "\<forall>k. map_of ?caller k = None \<longrightarrow> map_of ?merged k = map_of vars k"
    by (simp add: m map_add_def)
  ultimately show ?thesis
    using v g by blast
qed

theorem addSaveProps_caller_style_wins_witness:
  "hasStyleSupport \<lparr>supports = (\<lambda>key. key = COLOR_SUPPORT_KEY), attributes = [],
                    getEditWrapperProps = None\<rparr>
   \<and> (0::nat) < length [[(''style'', Obj [(''--wp--color--text'', Prim (PStr ''blue''))])]]
   \<and> distinct (map fst (entries (get_prop
         ([[(''style'', Obj [(''--wp--color--text'', Prim (PStr ''blue''))])]] ! 0) ''style'')))
   \<and> addSaveProps 0 \<lparr>supports = (\<lambda>key. key = COLOR_SUPPORT_KEY), attributes = [],
                    getEditWrapperProps = None\<rparr>
     [(''style'', Obj [(''color'', Obj [(''text'', Prim (PStr ''red'')),
                                        (''background'', Prim (PStr ''white''))])])]
     [[(''style'', Obj [(''--wp--color--text'', Prim (PStr ''blue''))])]]
   = Inr ([[(''style'', Obj [(''--wp--color--text'', Prim (PStr ''blue'')),
                             (''--wp--color--background'', Prim (PStr ''white''))])]], 0)
   \<and> (\<exists>merged.
         get_prop ([[(''style'', Obj [(''--wp--color--text'', Prim (PStr ''blue'')),
                             (''--wp--color--background'', Prim (PStr ''white''))])]] ! 0)
           ''style'' = Obj merged
         \<and> map_of merged ''--wp--color--text'' = Some (Prim (PStr ''blue'')))"
proof -
  let ?bt = "\<lparr>supports = (\<lambda>key. key = COLOR_SUPPORT_KEY), attributes = [],
              getEditWrapperProps = None\<rparr>"
  let ?attrs = "[(''style'', Obj [(''color'', Obj [(''text'', Prim (PStr ''red'')),
                                        (''background'', Prim (PStr ''white''))])])]"
  let ?h = "[[(''style'', Obj [(''--wp--color--text'', Prim (PStr ''blue''))])]]"
  let ?h' = "[[(''style'', Obj [(''--wp--color--text'', Prim (PStr ''blue'')),
                             (''--wp--color--background'', Prim (PStr ''white''))])]]"
  have s: "hasStyleSupport ?bt"
    by (simp add: hasStyleSupport_def hasBlockSupport_def styleSupportKeys_def)
  have l: "(0::nat) < length ?h"
    by simp
  have d: "distinct (map fst (entries (get_prop (?h ! 0) ''style'')))"
    by (simp add: get_prop_def)
  have r: "addSaveProps 0 ?bt ?attrs ?h = Inr (?h', 0)"
    by code_simp
  from addSaveProps_caller_style_wins [OF s l d r] obtain merged where
    b: "get_prop (?h' ! 0) ''style'' = Obj merged" and
    c: "\<forall>k v. map_of (entries (get_prop (?h ! 0) ''style'')) k = Some v
          \<longrightarrow> map_of merged k = Some v"
    by blast
  have "map_of (entries (get_prop (?h ! 0) ''style'')) ''--wp--color--text''
          = Some (Prim (PStr ''blue''))"
    by (simp add: get_prop_def)
  with c have "map_of merged ''--wp--color--text'' = Some (Prim (PStr ''blue''))"
    by blast
  with b have "\<exists>merged. get_prop (?h' ! 0) ''style'' = Obj merged
      \<and> map_of merged ''--wp--color--text'' = Some (Prim (PStr ''blue''))"
    by blast
  with s l d r show ?thesis
    by blast
qed

section \<open>Properties of the registration filters\<close>

lemma assign_all_single: "assign_all target [(k, v)] = set_prop k v target"
  by (simp add: assign_all_def)

lemma truthy_get_prop_set_prop: "truthy v \<Longrightarrow> truthy (get_prop (set_prop k v ob) k)"
  by (simp add: get_prop_set_prop_same)

text \<open>
  C6. \<open>addAttribute\<close> returns the settings as they are when the block type
  supports none of color, line height and font size. When it supports one, the
  settings it returns declare a \<^verbatim>\<open>style\<close> attribute: the default declaration
  \<^verbatim>\<open>{ type: 'object' }\<close> is added, behind the attributes already there, when none was
  declared, and a declaration already there (an object, as attribute declarations
  are) stays as it is.
\<close>

theorem addAttribute_declares_style:
  "(\<not> hasStyleSupport settings \<longrightarrow> addAttribute settings = settings)
   \<and> (hasStyleSupport settings \<longrightarrow>
        (\<exists>decl. map_of (attributes (addAttribute settings)) ''style'' = Some decl \<and> truthy decl))
   \<and> (hasStyleSupport settings \<and> map_of (attributes settings) ''style'' = None \<longrightarrow>
        addAttribute settings
          = settings\<lparr>attributes :=
              attributes settings @ [(''style'', Obj [(''type'', Prim (PStr ''object''))])]\<rparr>)
   \<and> (hasStyleSupport settings \<and> map_of (attributes settings) ''style'' = Some (Obj decl) \<longrightarrow>
        addAttribute settings = settings)"
proof (intro conjI impI)
  assume "\<not> hasStyleSupport settings"
  then show "addAttribute settings = settings"
    by (simp add: addAttribute_def)
next
  assume s: "hasStyleSupport settings"
  show "\<exists>decl. map_of (attributes (addAttribute settings)) ''style'' = Some decl \<and> truthy decl"
  proof (cases "truthy (get_prop (attributes settings) ''style'')")
    case True
    then have "map_of (attributes settings) ''style'' \<noteq> None"
      by (auto simp: get_prop_def split: option.splits)
    with True s show ?thesis
      by (auto simp: addAttribute_def get_prop_def)
  next
    case False
    with s show ?thesis
      by (simp add: addAttribute_def assign_all_single map_of_set_prop)
  qed
next
  assume a: "hasStyleSupport settings \<and> map_of (attributes settings) ''style'' = None"
  then have "''style'' \<notin> fst ` set (attributes settings)"
    by (simp add: map_of_eq_None_iff)
  with a show "addAttribute settings
          = settings\<lparr>attributes :=
              attributes settings @ [(''style'', Obj [(''type'', Prim (PStr ''object''))])]\<rparr>"
    by (simp add: addAttribute_def get_prop_def assign_all_single set_prop_absent)
next
  assume "hasStyleSupport settings \<and> map_of (attributes settings) ''style'' = Some (Obj decl)"
  then show "addAttribute settings = settings"
    by (simp add: addAttribute_def get_prop_def)
qed

theorem addAttribute_declares_style_witness:
  "hasStyleSupport \<lparr>supports = (\<lambda>key. key = FONT_SIZE_SUPPORT_KEY),
                    attributes = [(''content'', Obj [(''type'', Prim (PStr ''string''))])],
                    getEditWrapperProps = None\<rparr>
   \<and> map_of (attributes \<lparr>supports = (\<lambda>key. key = FONT_SIZE_SUPPORT_KEY),
                    attributes = [(''content'', Obj [(''type'', Prim (PStr ''string''))])],
                    getEditWrapperProps = None\<rparr>) ''style'' = None
   \<and> attributes (addAttribute \<lparr>supports = (\<lambda>key. key = FONT_SIZE_SUPPORT_KEY),
                    attributes = [(''content'', Obj [(''type'', Prim (PStr ''string''))])],
                    getEditWrapperProps = None\<rparr>)
       = [(''content'', Obj [(''type'', Prim (PStr ''string''))]),
          (''style'', Obj [(''type'', Prim (PStr ''object''))])]
   \<and> \<not> hasStyleSupport \<lparr>supports = (\<lambda>key. False), attributes = [], getEditWrapperProps = None\<rparr>
   \<and> attributes (addAttribute \<lparr>supports = (\<lambda>key. False), attributes = [],
                    getEditWrapperProps = None\<rparr>) = []
   \<and> hasStyleSupport \<lparr>supports = (\<lambda>key. key = COLOR_SUPPORT_KEY),
                    attributes = [(''style'', Obj [(''type'', Prim (PStr ''object'')),
                                                   (''default'', Obj [])])],
                    getEditWrapperProps = None\<rparr>
   \<and> attributes (addAttribute \<lparr>supports = (\<lambda>key. key = COLOR_SUPPORT_KEY),
                    attributes = [(''style'', Obj [(''type'', Prim (PStr ''object'')),
                                                   (''default'', Obj [])])],
                    getEditWrapperProps = None\<rparr>)
       = [(''style'', Obj [(''type'', Prim (PStr ''object'')), (''default'', Obj [])])]"
proof -
  let ?s1 = "\<lparr>supports = (\<lambda>key. key = FONT_SIZE_SUPPORT_KEY),
                    attributes = [(''content'', Obj [(''type'', Prim (PStr ''string''))])],
                    getEditWrapperProps = None\<rparr>"
  let ?s2 = "\<lparr>supports = (\<lambda>key. False), attributes = [], getEditWrapperProps = None\<rparr>"
  let ?s3 = "\<lparr>supports = (\<lambda>key. key = COLOR_SUPPORT_KEY),
                    attributes = [(''style'', Obj [(''type'', Prim (PStr ''object'')),
                                                   (''default'', Obj [])])],
                    getEditWrapperProps = None\<rparr>"
  have h1: "hasStyleSupport ?s1"
    by (simp add: hasStyleSupport_def hasBlockSupport_def styleSupportKeys_def)
  have a1: "map_of (attributes ?s1) ''style'' = None"
    by simp
  have h2: "\<not> hasStyleSupport ?s2"
    by (simp add: hasStyleSupport_def hasBlockSupport_def styleSupportKeys_def)
  have h3: "hasStyleSupport ?s3"
    by (simp add: hasStyleSupport_def hasBlockSupport_def styleSupportKeys_def)
  have a3: "map_of (attributes ?s3) ''style''
              = Some (Obj [(''type'', Prim (PStr ''object'')), (''default'', Obj [])])"
    by simp
  from addAttribute_declares_style [of ?s1] h1 a1
  have r1: "attributes (addAttribute ?s1)
       = [(''content'', Obj [(''type'', Prim (PStr ''string''))]),
          (''style'', Obj [(''type'', Prim (PStr ''object''))])]"
    by simp
  from addAttribute_declares_style [of ?s2] h2
  have r2: "attributes (addAttribute ?s2) = []"
    by simp
  from addAttribute_declares_style [of ?s3 "[(''type'', Prim (PStr ''object'')), (''default'', Obj [])]"] h3 a3
  have r3: "attributes (addAttribute ?s3)
       = [(''style'', Obj [(''type'', Prim (PStr ''object'')), (''default'', Obj [])])]"
    by simp
  from h1 a1 r1 h2 r2 h3 r3 show ?thesis
    by blast
qed

lemma hasStyleSupport_addEditProps: "hasStyleSupport (addEditProps settings) = hasStyleSupport settings"
  by (simp add: addEditProps_def hasStyleSupport_def hasBlockSupport_def)

lemma editWrapperProps_existing:
  "getEditWrapperProps settings = Some existing \<Longrightarrow>
   editWrapperProps settings attrs h
     = (case existing attrs (h @ [[]]) of
          Inl e \<Rightarrow> Inl e
        | Inr (h1, props) \<Rightarrow> addSaveProps props settings attrs h1)"
  by (simp add: editWrapperProps_def alloc_def)

lemma editWrapperProps_none:
  "getEditWrapperProps settings = None \<Longrightarrow>
   editWrapperProps settings attrs h = addSaveProps (length h) settings attrs (h @ [[]])"
  by (simp add: editWrapperProps_def alloc_def)

text \<open>
  C7. For settings with style support, \<open>addEditProps\<close> installs a
  \<^verbatim>\<open>getEditWrapperProps\<close> that chains: where a function was registered before, it is
  called first on the attributes (an exception it throws goes through), and
  \<open>addSaveProps\<close> then works on the props object it returned, which keeps its
  reference, its other properties and its own \<^verbatim>\<open>style\<close> entries over the generated
  ones; where none was registered, \<open>addSaveProps\<close> works on a fresh empty object.
\<close>

theorem addEditProps_chains:
  assumes "hasStyleSupport settings"
  shows "getEditWrapperProps (addEditProps settings) = Some (editWrapperProps settings)
     \<and> (\<forall>existing attrs h. getEditWrapperProps settings = Some existing \<longrightarrow>
           (\<forall>e. existing attrs (h @ [[]]) = Inl e \<longrightarrow> editWrapperProps settings attrs h = Inl e)
           \<and> (\<forall>h1 props. existing attrs (h @ [[]]) = Inr (h1, props) \<longrightarrow>
                 editWrapperProps settings attrs h = addSaveProps props settings attrs h1
                 \<and> (\<forall>h2 props2. props < length h1
                        \<and> editWrapperProps settings attrs h = Inr (h2, props2) \<longrightarrow>
                       props2 = props
                       \<and> (\<forall>k. k \<noteq> ''style'' \<longrightarrow> map_of (h2 ! props2) k = map_of (h1 ! props) k)
                       \<and> (\<exists>vars. getCSSVariables (get_prop attrs ''style'') = Inr vars
                            \<and> get_prop (h2 ! props2) ''style''
                                = Obj (spread2 (Obj vars) (get_prop (h1 ! props) ''style''))))))
     \<and> (\<forall>attrs h. getEditWrapperProps settings = None \<longrightarrow>
           (h @ [[]]) ! length h = []
           \<and> editWrapperProps settings attrs h = addSaveProps (length h) settings attrs (h @ [[]]))"
proof (intro conjI allI impI)
  show "getEditWrapperProps (addEditProps settings) = Some (editWrapperProps settings)"
    using assms by (simp add: addEditProps_def)
next
  fix existing attrs h e
  assume "getEditWrapperProps settings = Some existing" "existing attrs (h @ [[]]) = Inl e"
  then show "editWrapperProps settings attrs h = Inl e"
    by (simp add: editWrapperProps_existing)
next
  fix existing attrs h h1 props
  assume "getEditWrapperProps settings = Some existing" "existing attrs (h @ [[]]) = Inr (h1, props)"
  then show "editWrapperProps settings attrs h = addSaveProps props settings attrs h1"
    by (simp add: editWrapperProps_existing)
next
  fix existing attrs h h1 props h2 props2
  assume x: "getEditWrapperProps settings = Some existing"
    and f: "existing attrs (h @ [[]]) = Inr (h1, props)"
    and r: "props < length h1 \<and> editWrapperProps settings attrs h = Inr (h2, props2)"
  from x f r have "addSaveProps props settings attrs h1 = Inr (h2, props2)"
    by (simp add: editWrapperProps_existing)
  from addSaveProps_supported [OF assms this] obtain vars where
    v: "getCSSVariables (get_prop attrs ''style'') = Inr vars" and
    p: "props2 = props" and
    h: "h2 = h1[props := set_prop ''style''
                 (Obj (spread2 (Obj vars) (get_prop (h1 ! props) ''style''))) (h1 ! props)]"
    by blast
  show "props2 = props" by (rule p)
  show "map_of (h2 ! props2) k = map_of (h1 ! props) k" if "k \<noteq> ''style''" for k
    using r that by (simp add: p h map_of_set_prop)
  show "\<exists>vars. getCSSVariables (get_prop attrs ''style'') = Inr vars
          \<and> get_prop (h2 ! props2) ''style''
               = Obj (spread2 (Obj vars) (get_prop (h1 ! props) ''style''))"
    using r v by (auto simp: p h get_prop_set_prop_same)
next
  fix attrs :: obj and h :: heap
  show "(h @ [[]]) ! length h = []"
    by simp
next
  fix attrs :: obj and h :: heap
  assume "getEditWrapperProps settings = None"
  then show "editWrapperProps settings attrs h = addSaveProps (length h) settings attrs (h @ [[]])"
    by (rule editWrapperProps_none)
qed


theorem addEditProps_chains_witness:
  "hasStyleSupport
     \<lparr>supports = (\<lambda>key. key = LINE_HEIGHT_SUPPORT_KEY), attributes = [],
      getEditWrapperProps =
        Some (\<lambda>attrs h. Inr (h @ [[(''className'', Prim (PStr ''wide''))]], length h))\<rparr>
   \<and> (\<exists>g. getEditWrapperProps (addEditProps
         \<lparr>supports = (\<lambda>key. key = LINE_HEIGHT_SUPPORT_KEY), attributes = [],
          getEditWrapperProps =
            Some (\<lambda>attrs h. Inr (h @ [[(''className'', Prim (PStr ''wide''))]], length h))\<rparr>)
          = Some g
        \<and> g [(''style'', Obj [(''fontSize'', Prim (PNum 16))])] []
          = Inr ([[], [(''className'', Prim (PStr ''wide'')),
                       (''style'', Obj [(''--wp--font-size'', Prim (PStr ''16px''))])]], 1))"
proof -
  let ?s = "\<lparr>supports = (\<lambda>key. key = LINE_HEIGHT_SUPPORT_KEY), attributes = [],
      getEditWrapperProps =
        Some (\<lambda>attrs h. Inr (h @ [[(''className'', Prim (PStr ''wide''))]], length h))\<rparr>"
  have s: "hasStyleSupport ?s"
    by (simp add: hasStyleSupport_def hasBlockSupport_def styleSupportKeys_def)
  from addEditProps_chains [OF s]
  have g: "getEditWrapperProps (addEditProps ?s) = Some (editWrapperProps ?s)"
    by blast
  have "editWrapperProps ?s [(''style'', Obj [(''fontSize'', Prim (PNum 16))])] []
          = Inr ([[], [(''className'', Prim (PStr ''wide'')),
                       (''style'', Obj [(''--wp--font-size'', Prim (PStr ''16px''))])]], 1)"
    by code_simp
  with s g show ?thesis
    by blast
qed

section \<open>Properties of the selectors\<close>












section \<open>Properties of the navigation structure panel\<close>

text \<open>
  C9, as stated, asks that the component render nothing for an empty sequence of
  blocks. It does render: the panel and its titled body are returned in any case.
\<close>

theorem NavigationStructurePanel_empty_counterexample:
  "\<not> rendersNothing
       (NavigationStructurePanel (\<lambda>text. text)
          \<lparr>getSelectedBlockClientIds = ([] :: string list), selectBlock = ()\<rparr>
          ([] :: string list))"
  by (simp add: NavigationStructurePanel_def)

text \<open>
  C9, amended. The component always renders the panel with its body titled
  \<^verbatim>\<open>Navigation structure\<close>. For an empty sequence of blocks the body holds nothing;
  otherwise it holds the toolbar and the block navigation list of these blocks,
  with nested blocks shown and an appender, whose selected entry is the first of
  the store's selected client ids (none when there is no selection).
\<close>

theorem NavigationStructurePanel_renders:
  "(blocks = [] \<longrightarrow>
      NavigationStructurePanel translate store blocks
        = Panel [PanelBody (translate ''Navigation structure'') [NoChild]])
   \<and> (blocks \<noteq> [] \<longrightarrow>
      NavigationStructurePanel translate store blocks
        = Panel [PanelBody (translate ''Navigation structure'')
                   [Fragment [BlockNavigationToolbar,
                              BlockNavigationList blocks
                                (first_elem (getSelectedBlockClientIds store))
                                (selectBlock store) True True]]])
   \<and> (getSelectedBlockClientIds store = [] \<longrightarrow> first_elem (getSelectedBlockClientIds store) = None)
   \<and> (\<forall>i is. getSelectedBlockClientIds store = i # is
         \<longrightarrow> first_elem (getSelectedBlockClientIds store) = Some i)"
  by (simp add: NavigationStructurePanel_def first_elem_def)

theorem NavigationStructurePanel_renders_witness:
  "NavigationStructurePanel (\<lambda>text. text)
     \<lparr>getSelectedBlockClientIds = [''b2'', ''b3''], selectBlock = ()\<rparr> [''b1'', ''b2'']
     = Panel [PanelBody ''Navigation structure''
                [Fragment [BlockNavigationToolbar,
                           BlockNavigationList [''b1'', ''b2''] (Some ''b2'') () True True]]]
   \<and> NavigationStructurePanel (\<lambda>text. text)
     \<lparr>getSelectedBlockClientIds = [''b2'', ''b3''], selectBlock = ()\<rparr> ([] :: string list)
     = Panel [PanelBody ''Navigation structure'' [NoChild]]"
proof -
  let ?store = "\<lparr>getSelectedBlockClientIds = [''b2'', ''b3''], selectBlock = ()\<rparr>"
  from NavigationStructurePanel_renders [of "[''b1'', ''b2'']" "\<lambda>text. text" ?store]
  have 1: "NavigationStructurePanel (\<lambda>text. text) ?store [''b1'', ''b2'']
     = Panel [PanelBody ''Navigation structure''
                [Fragment [BlockNavigationToolbar,
                           BlockNavigationList [''b1'', ''b2''] (Some ''b2'') () True True]]]"
    by simp
  from NavigationStructurePanel_renders [of "[] :: string list" "\<lambda>text. text" ?store]
  have 2: "NavigationStructurePanel (\<lambda>text. text) ?store ([] :: string list)
     = Panel [PanelBody ''Navigation structure'' [NoChild]]"
    by simp
  from 1 2 show ?thesis
    by blast
qed

section \<open>The flattening against its key paths\<close>

lemma map_of_map_key_inj:
  "inj f \<Longrightarrow> map_of (map (\<lambda>(k, v). (f k, v)) xs) (f k) = map_of xs k"
  by (induction xs) (auto simp: inj_eq)

lemma map_of_map_key_outside:
  "k' \<notin> range f \<Longrightarrow> map_of (map (\<lambda>(k, v). (f k, v)) xs) k' = None"
  by (induction xs) auto

lemma map_of_map_key_cong:
  assumes "inj f" and "map_of xs = map_of ys"
  shows "map_of (map (\<lambda>(k, v). (f k, v)) xs) = map_of (map (\<lambda>(k, v). (f k, v)) ys)"
proof
  fix k'
  show "map_of (map (\<lambda>(k, v). (f k, v)) xs) k' = map_of (map (\<lambda>(k, v). (f k, v)) ys) k'"
  proof (cases "k' \<in> range f")
    case True
    then obtain k where "k' = f k" by blast
    with assms show ?thesis
      by (simp add: map_of_map_key_inj)
  next
    case False
    then show ?thesis
      by (simp add: map_of_map_key_outside)
  qed
qed

lemma inj_prepend: "inj (\<lambda>key :: string. p @ key)"
  by (simp add: inj_def)

text \<open>The mapping behind mapKeys with an injective renaming.\<close>

lemma map_of_mapKeys_inj:
  assumes "inj f" and "distinct (map fst ob)" and "map_of ob = map_of (rev ys)"
  shows "map_of (mapKeys ob f) = map_of (rev (map (\<lambda>(k, v). (f k, v)) ys))"
proof -
  have "map_of (rev ob) = map_of (rev ys)"
    using assms(2,3) by (simp add: map_of_rev_distinct)
  from map_of_map_key_cong [OF assms(1) this]
  show ?thesis
    by (simp add: map_of_mapKeys rev_map)
qed

lemma leafEntries_path_nonempty: "(path, v) \<in> set (leafEntries config) \<Longrightarrow> path \<noteq> []"
  by (induction config arbitrary: path v rule: leafEntries.induct) auto

lemma nestedName_Cons: "path \<noteq> [] \<Longrightarrow> nestedName (key # path) = kebabCase key @ token @ nestedName path"
  by (cases path) (simp_all add: token_def)

lemma nestedVariables_Nil: "nestedVariables [] = []"
  by (simp add: nestedVariables_def)

lemma nestedVariables_Prim:
  "nestedVariables ((key, Prim v) # rest) = (kebabCase key, Prim (leafValue key v)) # nestedVariables rest"
  by (simp add: nestedVariables_def)

lemma nestedVariables_Obj:
  "nestedVariables ((key, Obj config) # rest)
     = map (\<lambda>(k, v). (kebabCase key @ token @ k, v)) (nestedVariables config) @ nestedVariables rest"
proof -
  have "map (\<lambda>(path, v). (nestedName path, Prim (leafValue (last path) v)))
          (map (\<lambda>(path, v). (key # path, v)) (leafEntries config))
        = map (\<lambda>(k, v). (kebabCase key @ token @ k, v))
            (map (\<lambda>(path, v). (nestedName path, Prim (leafValue (last path) v))) (leafEntries config))"
    by (auto simp: nestedName_Cons dest: leafEntries_path_nonempty)
  then show ?thesis
    by (simp add: nestedVariables_def)
qed

lemma leafVariables_nested:
  "leafVariables config = map (\<lambda>(k, v). (pfx @ token @ k, v)) (nestedVariables config)"
  by (simp add: leafVariables_def nestedVariables_def variableName_def pfx_def token_def
      case_prod_beta)

lemma ownLeafKeys_Nil: "ownLeafKeys []"
  by (simp add: ownLeafKeys_def)

lemma ownLeafKeys_Prim:
  "ownLeafKeys ((key, Prim v) # rest) \<longleftrightarrow> key \<notin> set objectPrototypeKeys \<and> ownLeafKeys rest"
  by (simp add: ownLeafKeys_def)

lemma ownLeafKeys_Obj:
  "ownLeafKeys ((key, Obj config) # rest) \<longleftrightarrow> ownLeafKeys config \<and> ownLeafKeys rest"
proof -
  have "list_all (\<lambda>(path, v). last path \<notin> set objectPrototypeKeys)
          (map (\<lambda>(path, v). (key # path, v)) (leafEntries config))
        = list_all (\<lambda>(path, v). last path \<notin> set objectPrototypeKeys) (leafEntries config)"
  proof -
    have "last (key # fst x) = last (fst x)" if "x \<in> set (leafEntries config)" for x
      using leafEntries_path_nonempty [of "fst x" "snd x" config] that by simp
    then show ?thesis
      by (simp add: list_all_iff case_prod_beta)
  qed
  then show ?thesis
    by (simp add: ownLeafKeys_def)
qed

lemma fontSize_not_inherited: "''fontSize'' \<notin> set objectPrototypeKeys"
  by (simp add: objectPrototypeKeys_def)

lemma callFormatter_own:
  "key \<notin> set objectPrototypeKeys \<Longrightarrow>
   callFormatter (formatterOf key) v = Inr (Prim (leafValue key v))"
  by (simp add: formatterOf_def valueFormatters_def leafValue_def)

lemma forEachEntry_refines:
  "distinct (map fst result) \<Longrightarrow> ownLeafKeys config \<Longrightarrow>
   \<exists>r. forEachEntry result config = Inr r \<and> distinct (map fst r)
       \<and> map_of r = map_of result ++ map_of (rev (nestedVariables config))"
proof (induction result config rule: forEachEntry.induct)
  case (1 result)
  then show ?case
    by (simp add: nestedVariables_Nil)
next
  case (2 result key v rest)
  from "2.prems" have k: "key \<notin> set objectPrototypeKeys" and o: "ownLeafKeys rest"
    by (simp_all add: ownLeafKeys_Prim)
  let ?fv = "Prim (leafValue key v)"
  have f: "callFormatter (formatterOf key) v = Inr ?fv"
    by (rule callFormatter_own [OF k])
  have d: "distinct (map fst (set_prop (kebabCase key) ?fv result))"
    by (rule distinct_set_prop [OF "2.prems"(1)])
  from "2.IH" [OF f d o] obtain r where
    r: "forEachEntry (set_prop (kebabCase key) ?fv result) rest = Inr r" and
    dr: "distinct (map fst r)" and
    m: "map_of r = map_of (set_prop (kebabCase key) ?fv result) ++ map_of (rev (nestedVariables rest))"
    by blast
  have "map_of r = map_of result ++ map_of (rev (nestedVariables ((key, Prim v) # rest)))"
    by (simp add: m map_of_set_prop nestedVariables_Prim map_add_upd_left)
  with r dr f show ?case
    by simp
next
  case (3 result key config rest)
  from "3.prems" have oc: "ownLeafKeys config" and o: "ownLeafKeys rest"
    by (simp_all add: ownLeafKeys_Obj)
  from "3.IH"(1) [OF _ oc] obtain nested where
    n: "forEachEntry [] config = Inr nested" and
    dn: "distinct (map fst nested)" and
    mn: "map_of nested = map_of (rev (nestedVariables config))"
    by auto
  let ?f = "\<lambda>subkey. kebabCase key @ token @ subkey"
  let ?result' = "assign_all (assign_all [] result) (mapKeys nested ?f)"
  have d': "distinct (map fst ?result')"
    by (simp add: distinct_assign_all)
  have injf: "inj ?f"
    by (simp add: inj_def)
  have mk: "map_of (mapKeys nested ?f)
              = map_of (rev (map (\<lambda>(k, v). (?f k, v)) (nestedVariables config)))"
    by (rule map_of_mapKeys_inj [OF injf dn mn])
  have m': "map_of ?result'
              = map_of result ++ map_of (rev (map (\<lambda>(k, v). (?f k, v)) (nestedVariables config)))"
    by (simp add: map_of_assign_all map_of_rev_distinct [OF "3.prems"(1)]
        map_of_rev_distinct [OF distinct_mapKeys] mk)
  from "3.IH"(2) [OF n d' o] obtain r where
    r: "forEachEntry ?result' rest = Inr r" and
    dr: "distinct (map fst r)" and
    m: "map_of r = map_of ?result' ++ map_of (rev (nestedVariables rest))"
    by blast
  have "map_of r = map_of result ++ map_of (rev (nestedVariables ((key, Obj config) # rest)))"
    by (simp add: m m' nestedVariables_Obj)
  with r dr n show ?case
    by simp
qed

lemma getCSSVariables_refines:
  assumes "ownLeafKeys config"
  shows "\<exists>flat. getCSSVariables (Obj config) = Inr flat
           \<and> map_of flat = map_of (rev (leafVariables config))"
proof -
  from forEachEntry_refines [OF _ assms, of "[]"] obtain nested where
    n: "forEachEntry [] config = Inr nested" and
    dn: "distinct (map fst nested)" and
    mn: "map_of nested = map_of (rev (nestedVariables config))"
    by auto
  have "map_of (mapKeys nested (\<lambda>key. pfx @ token @ key))
          = map_of (rev (map (\<lambda>(k, v). (pfx @ token @ k, v)) (nestedVariables config)))"
    by (rule map_of_mapKeys_inj [OF inj_prepend [of "pfx @ token", simplified] dn mn])
  with n show ?thesis
    by (simp add: getCSSVariables_def getNestedCSSVariables_def leafVariables_nested)
qed

lemma getCSSVariables_two_levels:
  "getCSSVariables (Obj [(a, Obj [(b, Prim v)])])
     = (case callFormatter (formatterOf b) v of
          Inl e \<Rightarrow> Inl e
        | Inr fv \<Rightarrow> Inr [(''--wp--'' @ kebabCase a @ ''--'' @ kebabCase b, fv)])"
  by (simp add: getCSSVariables_def getNestedCSSVariables_def mapKeys_def assign_all_def
      set_prop_def pfx_def token_def split: sum.splits)

section \<open>Kebab-casing keys in dash case\<close>

lemma splitDash_nonempty: "splitDash s \<noteq> []"
  by (induction s) (auto simp: Let_def)

lemma joinWords_Cons: "ws \<noteq> [] \<Longrightarrow> joinWords (w # ws) = w @ ''-'' @ joinWords ws"
  by (cases ws) simp_all

lemma joinWords_splitDash: "joinWords (splitDash s) = s"
proof (induction s)
  case Nil
  then show ?case by simp
next
  case (Cons c cs)
  obtain w ws where sp: "splitDash cs = w # ws"
    using splitDash_nonempty [of cs] by (cases "splitDash cs") auto
  show ?case
  proof (cases "c = CHR ''-''")
    case True
    with Cons show ?thesis
      by (simp add: joinWords_Cons splitDash_nonempty)
  next
    case False
    with Cons sp show ?thesis
      by (cases ws) (simp_all add: Let_def)
  qed
qed

text \<open>Character classes.\<close>

lemma dash_is_break: "isBreak CHR ''-''" "\<not> isLower CHR ''-''" "\<not> isUpper CHR ''-''" "\<not> isDigit CHR ''-''"
  by (simp_all add: isBreak_def isLower_def isUpper_def isDigit_def)

lemma isLower_not_others: "isLower c \<Longrightarrow> \<not> isUpper c \<and> \<not> isDigit c \<and> \<not> isBreak c \<and> c \<noteq> CHR 0x27"
  by (auto simp: isBreak_def isLower_def isUpper_def isDigit_def)

lemma isDigit_not_others: "isDigit c \<Longrightarrow> \<not> isUpper c \<and> \<not> isLower c \<and> \<not> isBreak c \<and> c \<noteq> CHR 0x27"
  by (auto simp: isBreak_def isLower_def isUpper_def isDigit_def)

lemma takeWhile_word:
  "list_all P w \<Longrightarrow> atBoundary s \<Longrightarrow> \<not> P CHR ''-'' \<Longrightarrow> takeWhile P (w @ s) = w"
  by (cases s) (auto simp: atBoundary_def list_all_iff takeWhile_append)

lemma dropWhile_word:
  "list_all P w \<Longrightarrow> atBoundary s \<Longrightarrow> \<not> P CHR ''-'' \<Longrightarrow> dropWhile P (w @ s) = s"
  by (cases s) (auto simp: atBoundary_def list_all_iff dropWhile_append)

lemma takeWhile_none: "s \<noteq> [] \<Longrightarrow> \<not> P (hd s) \<Longrightarrow> takeWhile P s = []"
  by (cases s) auto

lemma unicodeWord_lower:
  assumes "w \<noteq> []" "list_all isLower w" "atBoundary s"
  shows "unicodeWord (w @ s) = Some w"
proof -
  obtain c cs where w: "w = c # cs" using assms(1) by (cases w) auto
  have l: "isLower c" using assms(2) by (simp add: w)
  have o: "optUpper (w @ s) = ([], w @ s)"
    using isLower_not_others [OF l] by (simp add: optUpper_def w)
  have t: "takeWhile isLower (w @ s) = w" and d: "dropWhile isLower (w @ s) = s"
    using assms(2,3) by (simp_all add: takeWhile_word dropWhile_word dash_is_break)
  have la: "(case s of [] \<Rightarrow> True | c # _ \<Rightarrow> isBreak c \<or> isUpper c)"
    using assms(3) by (cases s) (auto simp: atBoundary_def dash_is_break)
  have "wordLower (w @ s) = Some w"
    using assms(1) la by (simp add: wordLower_def o t d)
  then show ?thesis
    by (simp add: unicodeWord_def)
qed

lemma unicodeWord_digits:
  assumes "w \<noteq> []" "list_all isDigit w" "atBoundary s"
  shows "unicodeWord (w @ s) = Some w"
proof -
  obtain c cs where w: "w = c # cs" using assms(1) by (cases w) auto
  have g: "isDigit c" using assms(2) by (simp add: w)
  note n = isDigit_not_others [OF g]
  have o: "optUpper (w @ s) = ([], w @ s)"
    using n by (simp add: optUpper_def w)
  have tl: "takeWhile isLower (w @ s) = []" and tu: "takeWhile isUpper (w @ s) = []"
    using n by (simp_all add: w)
  have t: "takeWhile isDigit (w @ s) = w" and d: "dropWhile isDigit (w @ s) = s"
    using assms(2,3) by (simp_all add: takeWhile_word dropWhile_word dash_is_break)
  have 1: "wordLower (w @ s) = None"
    by (simp add: wordLower_def o tl)
  have 2: "wordUpper (w @ s) = None"
    by (simp add: wordUpper_def tu)
  have 3: "wordMiscLower (w @ s) = None"
    by (simp add: wordMiscLower_def o tl)
  have 4: "wordUppers (w @ s) = None"
    by (simp add: wordUppers_def tu)
  have s2: "take 2 s \<noteq> ordSuffix upper x" for upper x
    using assms(3) by (cases s) (auto simp: atBoundary_def ordSuffix_def)
  have 5: "wordOrd upper (w @ s) = None" for upper
    using assms(1) by (simp add: wordOrd_def t d s2)
  have 7: "wordDigits (w @ s) = Some w"
    using assms(1) by (simp add: wordDigits_def t)
  show ?thesis
    by (simp add: unicodeWord_def 1 2 3 4 5 7)
qed

text \<open>Ordinals: digits and the two lower-case letters that fit the last digit.\<close>

lemma ordSuffix_letters:
  "\<exists>x y. ordSuffix upper d = [x, y]
     \<and> (if upper then isUpper x \<and> isUpper y else isLower x \<and> isLower y)"
  by (simp add: ordSuffix_def isUpper_def isLower_def)

lemma ordSuffix_differ: "ordSuffix True d \<noteq> ordSuffix False e"
  by (simp add: ordSuffix_def)

lemma isOrdinal_split:
  assumes "isOrdinal w"
  shows "\<exists>ds. ds \<noteq> [] \<and> list_all isDigit ds \<and> w = ds @ ordSuffix False (last ds)"
proof -
  let ?ds = "takeWhile isDigit w"
  from assms have n: "?ds \<noteq> []" and d: "dropWhile isDigit w = ordSuffix False (last ?ds)"
    by (simp_all add: isOrdinal_def Let_def)
  have "w = ?ds @ dropWhile isDigit w"
    by simp
  then have "w = ?ds @ ordSuffix False (last ?ds)"
    by (simp only: d)
  moreover have "list_all isDigit ?ds"
    by (simp add: list_all_iff) (meson set_takeWhileD)
  ultimately show ?thesis
    using n by blast
qed

lemma takeWhile_digits_then_letter:
  "list_all isDigit ds \<Longrightarrow> \<not> isDigit x \<Longrightarrow> takeWhile isDigit (ds @ x # r) = ds"
  by (simp add: list_all_iff takeWhile_append)

lemma dropWhile_digits_then_letter:
  "list_all isDigit ds \<Longrightarrow> \<not> isDigit x \<Longrightarrow> dropWhile isDigit (ds @ x # r) = x # r"
  by (simp add: list_all_iff dropWhile_append)

lemma isOrdinal_join:
  assumes "ds \<noteq> []" and "list_all isDigit ds"
  shows "isOrdinal (ds @ ordSuffix False (last ds))"
proof -
  from ordSuffix_letters [of False "last ds"] obtain x y where
    o: "ordSuffix False (last ds) = [x, y]" and l: "isLower x"
    by auto
  have nd: "\<not> isDigit x"
    using isLower_not_others [OF l] by simp
  show ?thesis
    using assms(1)
    by (simp add: isOrdinal_def o takeWhile_digits_then_letter [OF assms(2) nd]
        dropWhile_digits_then_letter [OF assms(2) nd])
qed

lemma unicodeWord_ordinal:
  assumes "isOrdinal w" and "atBoundary s"
  shows "unicodeWord (w @ s) = Some w"
proof -
  from isOrdinal_split [OF assms(1)] obtain ds where
    n: "ds \<noteq> []" and g: "list_all isDigit ds" and w: "w = ds @ ordSuffix False (last ds)"
    by blast
  from ordSuffix_letters [of False "last ds"] obtain x y where
    o: "ordSuffix False (last ds) = [x, y]" and lx: "isLower x" and ly: "isLower y"
    by auto
  have nd: "\<not> isDigit x"
    using isLower_not_others [OF lx] by simp
  obtain c cs where ds: "ds = c # cs" using n by (cases ds) auto
  have gc: "isDigit c" using g by (simp add: ds)
  note nc = isDigit_not_others [OF gc]
  have ws: "w @ s = ds @ x # y # s"
    by (simp add: w o)
  have op: "optUpper (w @ s) = ([], w @ s)"
    using nc by (simp add: optUpper_def ws ds)
  have tl: "takeWhile isLower (w @ s) = []" and tu: "takeWhile isUpper (w @ s) = []"
    using nc by (simp_all add: ws ds)
  have t: "takeWhile isDigit (w @ s) = ds" and d: "dropWhile isDigit (w @ s) = x # y # s"
    unfolding ws
    by (rule takeWhile_digits_then_letter [OF g nd], rule dropWhile_digits_then_letter [OF g nd])
  have 1: "wordLower (w @ s) = None"
    by (simp add: wordLower_def op tl)
  have 2: "wordUpper (w @ s) = None"
    by (simp add: wordUpper_def tu)
  have 3: "wordMiscLower (w @ s) = None"
    by (simp add: wordMiscLower_def op tl)
  have 4: "wordUppers (w @ s) = None"
    by (simp add: wordUppers_def tu)
  have "[x, y] \<noteq> ordSuffix True (last ds)"
    using ordSuffix_differ [of "last ds" "last ds"] by (simp add: o)
  then have 5: "wordOrd True (w @ s) = None"
    using n by (simp add: wordOrd_def t d)
  have la: "(case s of [] \<Rightarrow> True | c # _ \<Rightarrow> \<not> isDigit c \<and> \<not> isLower c)"
    using assms(2) by (cases s) (auto simp: atBoundary_def dash_is_break)
  have "wordOrd False (w @ s) = Some (ds @ [x, y])"
    using n la by (simp add: wordOrd_def t d o split: list.splits)
  moreover have "ds @ [x, y] = w"
    by (simp add: w o)
  ultimately have 6: "wordOrd False (w @ s) = Some w"
    by (simp only:)
  show ?thesis
    by (simp add: unicodeWord_def 1 2 3 4 5 6)
qed

lemma isOrdinal_chars: "isOrdinal w \<Longrightarrow> c \<in> set w \<Longrightarrow> isLower c \<or> isDigit c"
proof -
  assume "isOrdinal w" and c: "c \<in> set w"
  from isOrdinal_split [OF this(1)] obtain ds where
    g: "list_all isDigit ds" and w: "w = ds @ ordSuffix False (last ds)"
    by blast
  from ordSuffix_letters [of False "last ds"] obtain x y where
    "ordSuffix False (last ds) = [x, y]" "isLower x" "isLower y"
    by auto
  with c g show ?thesis
    by (auto simp: w list_all_iff)
qed

lemma unicodeWord_dashWord: "dashWord w \<Longrightarrow> atBoundary s \<Longrightarrow> unicodeWord (w @ s) = Some w"
  by (auto simp: dashWord_def unicodeWord_lower unicodeWord_digits unicodeWord_ordinal)

lemma unicodeWord_dash: "unicodeWord (CHR ''-'' # s) = None"
  by (simp add: unicodeWord_def wordLower_def wordUpper_def wordMiscLower_def wordUppers_def
      wordOrd_def wordDigits_def optUpper_def dash_is_break)

lemma unicodeWords_dash: "unicodeWords (CHR ''-'' # s) = unicodeWords s"
  by (simp add: unicodeWord_dash)

lemma unicodeWords_dashWord:
  assumes "dashWord w" "atBoundary s"
  shows "unicodeWords (w @ s) = w # unicodeWords s"
proof -
  obtain c cs where w: "w = c # cs" using assms(1) by (cases w) (auto simp: dashWord_def)
  have "unicodeWord ((c # cs) @ s) = Some (c # cs)"
    using unicodeWord_dashWord [OF assms] by (simp add: w)
  then show ?thesis
    by (simp add: w)
qed

lemma unicodeWords_joinWords:
  "ws \<noteq> [] \<Longrightarrow> list_all dashWord ws \<Longrightarrow> unicodeWords (joinWords ws) = ws"
proof (induction ws rule: joinWords.induct)
  case 1
  then show ?case by simp
next
  case (2 w)
  then show ?case
    using unicodeWords_dashWord [of w "[]"] by (simp add: atBoundary_def)
next
  case (3 w v vs)
  have a: "unicodeWords (w @ CHR ''-'' # joinWords (v # vs))
             = w # unicodeWords (CHR ''-'' # joinWords (v # vs))"
    using "3.prems" by (intro unicodeWords_dashWord) (simp_all add: atBoundary_def)
  have b: "unicodeWords (CHR ''-'' # joinWords (v # vs)) = unicodeWords (joinWords (v # vs))"
    by (rule unicodeWords_dash)
  have c: "unicodeWords (joinWords (v # vs)) = v # vs"
    using 3 by simp
  have "joinWords (w # v # vs) = w @ CHR ''-'' # joinWords (v # vs)"
    by simp
  then show ?case
    by (simp only: a b c)
qed

lemma set_joinWords: "set (joinWords ws) \<subseteq> \<Union> (set ` set ws) \<union> {CHR ''-''}"
  by (induction ws rule: joinWords.induct) auto

lemma dashWord_chars: "dashWord w \<Longrightarrow> c \<in> set w \<Longrightarrow> isLower c \<or> isDigit c"
  by (auto simp: dashWord_def list_all_iff dest: isOrdinal_chars)

lemma dashCase_chars:
  assumes "dashCase key" and "c \<in> set key"
  shows "isLower c \<or> isDigit c \<or> c = CHR ''-''"
proof -
  from assms(2) have "c \<in> set (joinWords (splitDash key))"
    by (simp add: joinWords_splitDash)
  with set_joinWords [of "splitDash key"] have "c = CHR ''-'' \<or> (\<exists>w \<in> set (splitDash key). c \<in> set w)"
    by auto
  with assms(1) show ?thesis
    by (auto simp: dashCase_def list_all_iff dest: dashWord_chars)
qed

lemma dashCase_no_apostrophe: "dashCase key \<Longrightarrow> filter (\<lambda>c. c \<noteq> CHR 0x27) key = key"
proof -
  assume d: "dashCase key"
  have "c \<noteq> CHR 0x27" if "c \<in> set key" for c
    using dashCase_chars [OF d that] isLower_not_others [of c] isDigit_not_others [of c]
    by auto
  then show ?thesis
    by (simp add: filter_id_conv)
qed

lemma toLowerCase_no_upper: "\<forall>c \<in> set w. \<not> isUpper c \<Longrightarrow> toLowerCase w = w"
  by (simp add: toLowerCase_def map_idI)

lemma toLowerCase_dashWord: "dashWord w \<Longrightarrow> toLowerCase w = w"
  using isLower_not_others isDigit_not_others
  by (intro toLowerCase_no_upper) (auto dest: dashWord_chars)

lemma hasUnicodeWord_dash: "CHR ''-'' \<in> set s \<Longrightarrow> hasUnicodeWord s"
  by (induction s) (auto simp: dash_is_break)

lemma splitDash_no_dash: "CHR ''-'' \<notin> set s \<Longrightarrow> splitDash s = [s]"
  by (induction s) (auto simp: Let_def)

lemma asciiWords_word:
  assumes "w \<noteq> []" and "\<forall>c \<in> set w. \<not> isBreak c"
  shows "asciiWords w = [w]"
proof -
  obtain c cs where w: "w = c # cs" using assms(1) by (cases w) auto
  have t: "takeWhile (\<lambda>x. \<not> isBreak x) cs = cs" and d: "dropWhile (\<lambda>x. \<not> isBreak x) cs = []"
    using assms(2) by (simp_all add: w)
  have "\<not> isBreak c"
    using assms(2) by (simp add: w)
  then show ?thesis
    by (simp add: w t d)
qed

lemma words_dashCase: "dashCase key \<Longrightarrow> words key = splitDash key"
proof -
  assume d: "dashCase key"
  show ?thesis
  proof (cases "hasUnicodeWord key")
    case True
    have "unicodeWords (joinWords (splitDash key)) = splitDash key"
      using d by (intro unicodeWords_joinWords) (simp_all add: splitDash_nonempty dashCase_def)
    with True show ?thesis
      by (simp add: words_def joinWords_splitDash)
  next
    case False
    then have n: "CHR ''-'' \<notin> set key"
      using hasUnicodeWord_dash by blast
    then have s: "splitDash key = [key]"
      by (rule splitDash_no_dash)
    with d have w: "dashWord key"
      by (simp add: dashCase_def)
    then have "asciiWords key = [key]"
      using isLower_not_others isDigit_not_others
      by (intro asciiWords_word) (auto simp: dashWord_def dest: dashWord_chars [OF w])
    with False s show ?thesis
      by (simp add: words_def)
  qed
qed

lemma kebabCase_dashCase: "dashCase key \<Longrightarrow> kebabCase key = key"
proof -
  assume d: "dashCase key"
  have "map toLowerCase (splitDash key) = splitDash key"
    using d by (intro map_idI) (simp add: dashCase_def list_all_iff toLowerCase_dashWord)
  then show ?thesis
    by (simp add: kebabCase_def dashCase_no_apostrophe [OF d] words_dashCase [OF d]
        joinWords_splitDash)
qed

lemma kebabCase_prefixed: 
  assumes "dashCase key"
  shows "kebabCase (''--wp--'' @ key) = ''wp-'' @ key"
proof -
  let ?ws = "splitDash key"
  have f: "filter (\<lambda>c. c \<noteq> CHR 0x27) (''--wp--'' @ key) = ''--wp--'' @ key"
    by (simp add: dashCase_no_apostrophe [OF assms])
  have h: "hasUnicodeWord (''--wp--'' @ key)"
    by (simp add: dash_is_break)
  have k: "unicodeWords key = ?ws"
    using unicodeWords_joinWords [of ?ws] assms
    by (simp add: splitDash_nonempty dashCase_def joinWords_splitDash)
  have wp: "dashWord ''wp''"
    by (simp add: dashWord_def isLower_def)
  have "unicodeWords (''wp'' @ (CHR ''-'' # CHR ''-'' # key)) = ''wp'' # unicodeWords (CHR ''-'' # CHR ''-'' # key)"
    by (rule unicodeWords_dashWord [OF wp]) (simp add: atBoundary_def)
  then have "unicodeWords (''wp--'' @ key) = ''wp'' # ?ws"
    by (simp only: unicodeWords_dash k append_Cons append_Nil)
  then have "unicodeWords (CHR ''-'' # CHR ''-'' # (''wp--'' @ key)) = ''wp'' # ?ws"
    by (simp only: unicodeWords_dash)
  then have u: "unicodeWords (''--wp--'' @ key) = ''wp'' # ?ws"
    by simp
  have l: "map toLowerCase (''wp'' # ?ws) = ''wp'' # ?ws"
    using assms toLowerCase_dashWord [OF wp]
    by (simp add: dashCase_def list_all_iff toLowerCase_dashWord map_idI)
  have "joinWords (''wp'' # ?ws) = ''wp-'' @ key"
    by (simp add: joinWords_Cons splitDash_nonempty joinWords_splitDash)
  then show ?thesis
    by (simp only: kebabCase_def f words_def h u l if_True)
qed

section \<open>Dash case is what kebab-casing leaves unchanged\<close>

text \<open>Every word that \<open>kebabCase\<close> joins is a dash-case word.\<close>

lemma lower_of_upper: "isUpper c \<Longrightarrow> isLower (char_of ((of_char c :: nat) + 32))"
  by (simp add: isUpper_def isLower_def)

lemma toLowerCase_letters:
  "\<forall>c \<in> set w. isLower c \<or> isUpper c \<Longrightarrow> list_all isLower (toLowerCase w)"
  by (auto simp: toLowerCase_def list_all_iff lower_of_upper)

lemma toLowerCase_digits: "list_all isDigit w \<Longrightarrow> toLowerCase w = w"
  using isDigit_not_others by (intro toLowerCase_no_upper) (auto simp: list_all_iff)

lemma toLowerCase_append: "toLowerCase (a @ b) = toLowerCase a @ toLowerCase b"
  by (simp add: toLowerCase_def)

lemma toLowerCase_suffixes:
  "toLowerCase ''ST'' = ''st''" "toLowerCase ''ND'' = ''nd''"
  "toLowerCase ''RD'' = ''rd''" "toLowerCase ''TH'' = ''th''"
  "toLowerCase ''st'' = ''st''" "toLowerCase ''nd'' = ''nd''"
  "toLowerCase ''rd'' = ''rd''" "toLowerCase ''th'' = ''th''"
  by code_simp+

lemma toLowerCase_ordSuffix: "toLowerCase (ordSuffix upper d) = ordSuffix False d"
  by (simp add: ordSuffix_def toLowerCase_suffixes)

lemma toLowerCase_empty: "toLowerCase w = [] \<longleftrightarrow> w = []"
  by (simp add: toLowerCase_def)

lemma dashWord_letters:
  "w \<noteq> [] \<Longrightarrow> \<forall>c \<in> set w. isLower c \<or> isUpper c \<Longrightarrow> dashWord (toLowerCase w)"
  by (simp add: dashWord_def toLowerCase_empty toLowerCase_letters)

lemma dashWord_digits: "w \<noteq> [] \<Longrightarrow> list_all isDigit w \<Longrightarrow> dashWord (toLowerCase w)"
  by (simp add: dashWord_def toLowerCase_digits)

lemma dashWord_ordinal:
  "ds \<noteq> [] \<Longrightarrow> list_all isDigit ds \<Longrightarrow> dashWord (toLowerCase (ds @ ordSuffix upper (last ds)))"
  by (simp add: dashWord_def toLowerCase_append toLowerCase_ordSuffix toLowerCase_digits
      isOrdinal_join)

lemma optUpper_shape:
  "optUpper s = (u, s1) \<Longrightarrow> \<forall>c \<in> set u. isUpper c"
  by (auto simp: optUpper_def split: list.splits if_splits)

lemma wordLower_shape:
  assumes "wordLower s = Some w"
  shows "w \<noteq> [] \<and> (\<forall>c \<in> set w. isLower c \<or> isUpper c)"
proof -
  obtain u s1 where o: "optUpper s = (u, s1)" by (cases "optUpper s")
  from assms have w: "w = u @ takeWhile isLower s1" and n: "takeWhile isLower s1 \<noteq> []"
    by (auto simp: wordLower_def o Let_def split: if_splits)
  have "\<forall>c \<in> set (takeWhile isLower s1). isLower c"
    by (meson set_takeWhileD)
  with optUpper_shape [OF o] n show ?thesis
    by (auto simp: w)
qed

lemma wordMiscLower_shape:
  assumes "wordMiscLower s = Some w"
  shows "w \<noteq> [] \<and> (\<forall>c \<in> set w. isLower c \<or> isUpper c)"
proof -
  obtain u s1 where o: "optUpper s = (u, s1)" by (cases "optUpper s")
  from assms have w: "w = u @ takeWhile isLower s1" and n: "takeWhile isLower s1 \<noteq> []"
    by (auto simp: wordMiscLower_def o Let_def split: if_splits)
  have "\<forall>c \<in> set (takeWhile isLower s1). isLower c"
    by (meson set_takeWhileD)
  with optUpper_shape [OF o] n show ?thesis
    by (auto simp: w)
qed

lemma wordUpper_shape:
  assumes "wordUpper s = Some w"
  shows "w \<noteq> [] \<and> (\<forall>c \<in> set w. isLower c \<or> isUpper c)"
proof -
  let ?us = "takeWhile isUpper s"
  have u: "\<forall>c \<in> set ?us. isUpper c"
    by (meson set_takeWhileD)
  from assms have "(w = ?us \<and> ?us \<noteq> []) \<or> (w = butlast ?us \<and> 2 \<le> length ?us)"
    by (auto simp: wordUpper_def Let_def split: if_splits list.splits)
  then show ?thesis
  proof
    assume "w = ?us \<and> ?us \<noteq> []"
    with u show ?thesis by auto
  next
    assume b: "w = butlast ?us \<and> 2 \<le> length ?us"
    then have "length w \<noteq> 0"
      by simp
    moreover have "set w \<subseteq> set ?us"
      using b by (auto dest: in_set_butlastD)
    ultimately show ?thesis
      using u by auto
  qed
qed

lemma wordUppers_shape:
  assumes "wordUppers s = Some w"
  shows "w \<noteq> [] \<and> (\<forall>c \<in> set w. isLower c \<or> isUpper c)"
proof -
  from assms have "w = takeWhile isUpper s" "w \<noteq> []"
    by (auto simp: wordUppers_def Let_def split: if_splits)
  then show ?thesis
    by (metis set_takeWhileD)
qed

lemma wordOrd_shape:
  assumes "wordOrd upper s = Some w"
  shows "\<exists>ds. ds \<noteq> [] \<and> list_all isDigit ds \<and> w = ds @ ordSuffix upper (last ds)"
proof -
  let ?ds = "takeWhile isDigit s"
  from assms have "?ds \<noteq> []" "w = ?ds @ ordSuffix upper (last ?ds)"
    by (auto simp: wordOrd_def Let_def split: if_splits)
  moreover have "list_all isDigit ?ds"
    by (simp add: list_all_iff) (meson set_takeWhileD)
  ultimately show ?thesis
    by blast
qed

lemma wordDigits_shape:
  assumes "wordDigits s = Some w"
  shows "w \<noteq> [] \<and> list_all isDigit w"
proof -
  from assms have "w = takeWhile isDigit s" "w \<noteq> []"
    by (auto simp: wordDigits_def Let_def split: if_splits)
  then show ?thesis
    by (simp add: list_all_iff) (meson set_takeWhileD)
qed

lemma unicodeWord_dashWord_lower:
  assumes "unicodeWord s = Some w"
  shows "dashWord (toLowerCase w)"
proof -
  from assms consider
      "wordLower s = Some w" | "wordUpper s = Some w" | "wordMiscLower s = Some w"
    | "wordUppers s = Some w" | "wordOrd True s = Some w" | "wordOrd False s = Some w"
    | "wordDigits s = Some w"
    by (auto simp: unicodeWord_def split: option.splits)
  then show ?thesis
  proof cases
    case 1
    from wordLower_shape [OF this] show ?thesis by (simp add: dashWord_letters)
  next
    case 2
    from wordUpper_shape [OF this] show ?thesis by (simp add: dashWord_letters)
  next
    case 3
    from wordMiscLower_shape [OF this] show ?thesis by (simp add: dashWord_letters)
  next
    case 4
    from wordUppers_shape [OF this] show ?thesis by (simp add: dashWord_letters)
  next
    case 5
    from wordOrd_shape [OF this] show ?thesis by (auto simp: dashWord_ordinal)
  next
    case 6
    from wordOrd_shape [OF this] show ?thesis by (auto simp: dashWord_ordinal)
  next
    case 7
    from wordDigits_shape [OF this] show ?thesis by (simp add: dashWord_digits)
  qed
qed

lemma unicodeWords_dashWords: "\<forall>w \<in> set (unicodeWords s). dashWord (toLowerCase w)"
proof (induction s rule: unicodeWords.induct)
  case 1
  then show ?case by simp
next
  case (2 c cs)
  show ?case
  proof (cases "unicodeWord (c # cs)")
    case None
    with 2 show ?thesis by simp
  next
    case (Some w)
    with 2 unicodeWord_dashWord_lower [OF Some] show ?thesis by simp
  qed
qed

lemma hasUnicodeWord_tl: "\<not> hasUnicodeWord (c # cs) \<Longrightarrow> \<not> hasUnicodeWord cs"
  by simp

lemma hasUnicodeWord_dropWhile: "\<not> hasUnicodeWord s \<Longrightarrow> \<not> hasUnicodeWord (dropWhile P s)"
  by (induction s) (auto simp del: hasUnicodeWord.simps dest: hasUnicodeWord_tl)

lemma run_uniform:
  "\<not> hasUnicodeWord (c # cs) \<Longrightarrow> \<not> isBreak c \<Longrightarrow>
   (isDigit c \<longrightarrow> list_all isDigit (takeWhile (\<lambda>x. \<not> isBreak x) (c # cs)))
   \<and> (\<not> isDigit c \<longrightarrow> (\<forall>x \<in> set (takeWhile (\<lambda>x. \<not> isBreak x) (c # cs)). isLower x \<or> isUpper x))"
proof (induction cs arbitrary: c)
  case Nil
  then show ?case
    by (auto simp: isBreak_def)
next
  case (Cons d ds)
  from Cons.prems(1) have t: "\<not> hasUnicodeWord (d # ds)"
    by (rule hasUnicodeWord_tl)
  from Cons.prems(1) have a1: "\<not> (isDigit c \<and> (isLower d \<or> isUpper d))"
    and a2: "\<not> ((isLower c \<or> isUpper c) \<and> isDigit d)"
    by auto
  from Cons.prems(2) have cl: "\<not> isDigit c \<Longrightarrow> isLower c \<or> isUpper c"
    by (auto simp: isBreak_def)
  show ?case
  proof (cases "isBreak d")
    case True
    with Cons.prems(2) cl show ?thesis
      by auto
  next
    case False
    note ih = Cons.IH [OF t False]
    from False have dl: "\<not> isDigit d \<Longrightarrow> isLower d \<or> isUpper d"
      by (auto simp: isBreak_def)
    show ?thesis
    proof (cases "isDigit c")
      case True
      with a1 dl have "isDigit d" by blast
      with ih True Cons.prems(2) show ?thesis
        by simp
    next
      case nd: False
      with cl a2 have "\<not> isDigit d" by blast
      with ih nd cl Cons.prems(2) show ?thesis
        by simp
    qed
  qed
qed

lemma asciiWords_dashWords:
  "\<not> hasUnicodeWord s \<Longrightarrow> \<forall>w \<in> set (asciiWords s). dashWord (toLowerCase w)"
proof (induction s rule: asciiWords.induct)
  case 1
  then show ?case by simp
next
  case (2 c cs)
  from "2.prems" have t: "\<not> hasUnicodeWord cs"
    by (rule hasUnicodeWord_tl)
  show ?case
  proof (cases "isBreak c")
    case True
    with 2 t show ?thesis by simp
  next
    case False
    let ?run = "takeWhile (\<lambda>x. \<not> isBreak x) (c # cs)"
    have n: "?run \<noteq> []"
      using False by simp
    from run_uniform [OF "2.prems" False] n have "dashWord (toLowerCase ?run)"
      by (cases "isDigit c") (simp_all add: dashWord_digits dashWord_letters)
    moreover have "\<forall>w \<in> set (asciiWords (dropWhile (\<lambda>x. \<not> isBreak x) cs)). dashWord (toLowerCase w)"
      using "2.IH"(2) [OF False hasUnicodeWord_dropWhile [OF t]] .
    ultimately show ?thesis
      using False by simp
  qed
qed

lemma words_dashWords: "\<forall>w \<in> set (words s). dashWord (toLowerCase w)"
  by (simp add: words_def unicodeWords_dashWords asciiWords_dashWords)

text \<open>Joining and splitting again.\<close>

lemma dashWord_no_dash: "dashWord w \<Longrightarrow> CHR ''-'' \<notin> set w"
  using dashWord_chars [of w "CHR ''-''"] by (auto simp: dash_is_break)

lemma splitDash_word: "CHR ''-'' \<notin> set w \<Longrightarrow> splitDash (w @ CHR ''-'' # r) = w # splitDash r"
  by (induction w) (auto simp: Let_def)

lemma splitDash_joinWords:
  "ts \<noteq> [] \<Longrightarrow> list_all dashWord ts \<Longrightarrow> splitDash (joinWords ts) = ts"
proof (induction ts rule: joinWords.induct)
  case 1
  then show ?case by simp
next
  case (2 w)
  then show ?case
    by (simp add: splitDash_no_dash dashWord_no_dash)
next
  case (3 w v vs)
  then show ?case
    by (simp add: splitDash_word dashWord_no_dash del: splitDash.simps)
qed

lemma joinWords_empty: "joinWords ts = [] \<Longrightarrow> list_all dashWord ts \<Longrightarrow> ts = []"
  by (induction ts rule: joinWords.induct) (auto simp: dashWord_def)

lemma kebabCase_dashCase_or_empty: "kebabCase s = [] \<or> dashCase (kebabCase s)"
proof -
  let ?ts = "map toLowerCase (words (filter (\<lambda>c. c \<noteq> CHR 0x27) s))"
  have d: "list_all dashWord ?ts"
    using words_dashWords by (simp add: list_all_iff)
  show ?thesis
  proof (cases "?ts = []")
    case True
    then show ?thesis
      by (simp add: kebabCase_def)
  next
    case False
    from splitDash_joinWords [OF False d] d have "dashCase (joinWords ?ts)"
      by (simp only: dashCase_def)
    then show ?thesis
      by (simp add: kebabCase_def)
  qed
qed

lemma dashCase_nonempty: "dashCase key \<Longrightarrow> key \<noteq> []"
  by (auto simp: dashCase_def dashWord_def)

lemma dashCase_iff_fixed: "dashCase key \<longleftrightarrow> key \<noteq> [] \<and> kebabCase key = key"
proof
  assume "dashCase key"
  then show "key \<noteq> [] \<and> kebabCase key = key"
    by (simp add: dashCase_nonempty kebabCase_dashCase)
next
  assume "key \<noteq> [] \<and> kebabCase key = key"
  with kebabCase_dashCase_or_empty [of key] show "dashCase key"
    by auto
qed

lemma kebabCase_idempotent: "kebabCase (kebabCase s) = kebabCase s"
  using kebabCase_dashCase_or_empty [of s]
  by (auto simp: kebabCase_dashCase) (simp add: kebabCase_def words_def)

section \<open>Flattening single-level configurations\<close>

lemma fold_set_prop_fresh:
  "distinct (map fst acc @ map (f \<circ> fst) xs) \<Longrightarrow>
   fold (\<lambda>(k, v). set_prop (f k) v) xs acc = acc @ map (\<lambda>(k, v). (f k, v)) xs"
proof (induction xs arbitrary: acc)
  case Nil
  then show ?case by simp
next
  case (Cons x xs)
  obtain k v where x: "x = (k, v)" by (cases x)
  from Cons.prems have a: "f k \<notin> fst ` set acc"
    by (auto simp: x)
  from Cons.prems have "distinct (map fst (acc @ [(f k, v)]) @ map (f \<circ> fst) xs)"
    by (auto simp: x comp_def)
  from Cons.IH [OF this] show ?case
    by (simp add: x set_prop_absent [OF a])
qed

lemma mapKeys_fresh:
  "distinct (map (f \<circ> fst) ob) \<Longrightarrow> mapKeys ob f = map (\<lambda>(k, v). (f k, v)) ob"
  using fold_set_prop_fresh [of "[]" f ob] by (simp add: mapKeys_def)

lemma forEachEntry_leaves:
  "distinct (map fst result @ map (kebabCase \<circ> fst) ls) \<Longrightarrow>
   \<forall>(k, p) \<in> set ls. callFormatter (formatterOf k) p = Inr (g k p) \<Longrightarrow>
   forEachEntry result (map (\<lambda>(k, p). (k, Prim p)) ls)
     = Inr (result @ map (\<lambda>(k, p). (kebabCase k, g k p)) ls)"
proof (induction ls arbitrary: result)
  case Nil
  then show ?case by simp
next
  case (Cons x ls)
  obtain k p where x: "x = (k, p)" by (cases x)
  from Cons.prems(1) have a: "kebabCase k \<notin> fst ` set result"
    by (auto simp: x)
  from Cons.prems(2) have f: "callFormatter (formatterOf k) p = Inr (g k p)"
    by (simp add: x)
  from Cons.prems(1)
  have d: "distinct (map fst (result @ [(kebabCase k, g k p)]) @ map (kebabCase \<circ> fst) ls)"
    by (auto simp: x comp_def)
  from Cons.prems(2) have r: "\<forall>(k, p) \<in> set ls. callFormatter (formatterOf k) p = Inr (g k p)"
    by simp
  from Cons.IH [OF d r] show ?case
    by (simp add: x f set_prop_absent [OF a])
qed

lemma getCSSVariables_leaves:
  assumes "distinct (map (kebabCase \<circ> fst) ls)"
    and "\<forall>(k, p) \<in> set ls. callFormatter (formatterOf k) p = Inr (g k p)"
  shows "getCSSVariables (Obj (map (\<lambda>(k, p). (k, Prim p)) ls))
           = Inr (map (\<lambda>(k, p). (''--wp--'' @ kebabCase k, g k p)) ls)"
proof -
  let ?nested = "map (\<lambda>(k, p). (kebabCase k, g k p)) ls"
  have n: "forEachEntry [] (map (\<lambda>(k, p). (k, Prim p)) ls) = Inr ?nested"
    using forEachEntry_leaves [of "[]" ls g] assms by simp
  have "map ((\<lambda>key. pfx @ token @ key) \<circ> fst) ?nested
          = map (\<lambda>key. pfx @ token @ key) (map (kebabCase \<circ> fst) ls)"
    by (simp add: case_prod_beta comp_def)
  moreover have "distinct (map (\<lambda>key. pfx @ token @ key) (map (kebabCase \<circ> fst) ls))"
    using assms(1) by (simp add: distinct_map inj_on_def)
  ultimately have "distinct (map ((\<lambda>key. pfx @ token @ key) \<circ> fst) ?nested)"
    by (simp only:)
  from mapKeys_fresh [OF this]
  have "mapKeys ?nested (\<lambda>key. pfx @ token @ key)
          = map (\<lambda>(k, p). (''--wp--'' @ kebabCase k, g k p)) ls"
    by (simp add: case_prod_beta pfx_def token_def)
  with n show ?thesis
    by (simp add: getCSSVariables_def getNestedCSSVariables_def)
qed

lemma dashCase_not_formatted:
  "list_all (\<lambda>name. \<not> dashCase name) (''fontSize'' # remove1 ''constructor'' objectPrototypeKeys)"
  by code_simp

lemma callFormatter_dashCase:
  assumes "dashCase key"
  shows "callFormatter (formatterOf key) p
           = Inr (if key = ''constructor'' then Obj (entries (Prim p)) else Prim p)"
proof (cases "key = ''constructor''")
  case True
  then show ?thesis
    by (simp add: formatterOf_def valueFormatters_def objectPrototypeKeys_def)
next
  case False
  have "key \<notin> set (''fontSize'' # remove1 ''constructor'' objectPrototypeKeys)"
    using dashCase_not_formatted assms by (auto simp: list_all_iff)
  with False have "key \<noteq> ''fontSize''" "key \<notin> set objectPrototypeKeys"
    by (auto simp: objectPrototypeKeys_def)
  with False show ?thesis
    by (simp add: formatterOf_def valueFormatters_def)
qed

lemma callFormatter_prefixed: "callFormatter (formatterOf (''--wp--'' @ key)) p = Inr (Prim p)"
  by (simp add: formatterOf_def valueFormatters_def objectPrototypeKeys_def)

lemma leaves_of_flat:
  "\<forall>(key, v) \<in> set config. \<not> isObject v \<Longrightarrow> \<exists>ls. config = map (\<lambda>(k, p). (k, Prim p)) ls"
proof (induction config)
  case Nil
  then show ?case by simp
next
  case (Cons x config)
  obtain k v where x: "x = (k, v)" by (cases x)
  from Cons.prems obtain p where v: "v = Prim p"
    by (cases v) (auto simp: x)
  from Cons obtain ls where "config = map (\<lambda>(k, p). (k, Prim p)) ls"
    by auto
  then have "x # config = map (\<lambda>(k, p). (k, Prim p)) ((k, p) # ls)"
    by (simp add: x v)
  then show ?case ..
qed

lemma getCSSVariables_single_leaf:
  "key \<notin> set objectPrototypeKeys \<Longrightarrow>
   getCSSVariables (Obj [(key, Prim v)]) = Inr [(''--wp--'' @ kebabCase key, Prim (leafValue key v))]"
  using getCSSVariables_leaves [of "[(key, v)]" "\<lambda>k p. Prim (leafValue k p)"]
  by (simp add: callFormatter_own)

lemma getCSSVariables_fontSize_16:
  "getCSSVariables (Obj [(''fontSize'', Prim (PNum 16))]) = Inr [(''--wp--font-size'', Prim (PStr ''16px''))]"
  by code_simp

section \<open>Formatters, key names and dash-case keys\<close>

text \<open>
  C2. The formatter lookup \<^verbatim>\<open>valueFormatters[ key ] || identity\<close> is meant to find a
  formatter for \<^verbatim>\<open>fontSize\<close> only. At the leaf key \<^verbatim>\<open>toString\<close> it finds the
  inherited \<^verbatim>\<open>Object.prototype.toString\<close> and records its answer in place of the
  leaf value; at \<^verbatim>\<open>valueOf\<close> the inherited member throws.
\<close>

theorem getCSSVariables_inherited_formatter:
  "getCSSVariables (Obj [(''toString'', Prim (PNum 5))])
     = Inr [(''--wp--to-string'', Prim (PStr ''[object Undefined]''))]
   \<and> getCSSVariables (Obj [(''valueOf'', Prim (PNum 5))]) = Inl TypeError"
  by code_simp

text \<open>
  C1, as stated, has every leaf recorded with its leaf value. The leaf
  \<^verbatim>\<open>typography.fontSize\<close> with value 16 is recorded as the string \<^verbatim>\<open>16px\<close>.
\<close>

theorem getCSSVariables_leaf_value_counterexample:
  "getCSSVariables (Obj [(''typography'', Obj [(''fontSize'', Prim (PNum 16))])])
     = Inr [(''--wp--typography--font-size'', Prim (PStr ''16px''))]
   \<and> map_of [(''--wp--typography--font-size'', Prim (PStr ''16px''))] ''--wp--typography--font-size''
       \<noteq> Some (Prim (PNum 16))"
  by code_simp

text \<open>
  C1, amended. \<open>getCSSVariables\<close> joins the kebab-cased segments of a key path
  with \<^verbatim>\<open>--\<close> behind \<^verbatim>\<open>--wp\<close>: \<^verbatim>\<open>{ color: { text: "red" } }\<close> flattens to exactly
  \<^verbatim>\<open>{ "--wp--color--text": "red" }\<close>. For a configuration none of whose leaf keys
  names a member of \<^verbatim>\<open>Object.prototype\<close>, the keys of the result are the names of
  the leaf paths, and the result maps each name to the value of the last leaf of
  that name in enumeration order: the leaf value, with \<^verbatim>\<open>px\<close> appended when the leaf
  key is \<^verbatim>\<open>fontSize\<close> and the value is truthy. A leaf reached by the nested keys
  \<open>a\<close>, \<open>b\<close> alone is recorded under \<^verbatim>\<open>--wp--\<close>, kebab-cased \<open>a\<close>, \<^verbatim>\<open>--\<close>,
  kebab-cased \<open>b\<close>.
\<close>

theorem getCSSVariables_flattens:
  "getCSSVariables (Obj [(''color'', Obj [(''text'', Prim (PStr ''red''))])])
     = Inr [(''--wp--color--text'', Prim (PStr ''red''))]
   \<and> (ownLeafKeys config \<longrightarrow>
        (\<exists>flat. getCSSVariables (Obj config) = Inr flat
           \<and> fst ` set flat = variableName ` fst ` set (leafEntries config)
           \<and> map_of flat = map_of (rev (leafVariables config))))
   \<and> (b \<notin> set objectPrototypeKeys \<longrightarrow>
        getCSSVariables (Obj [(a, Obj [(b, Prim v)])])
          = Inr [(''--wp--'' @ kebabCase a @ ''--'' @ kebabCase b, Prim (leafValue b v))])
   \<and> (b \<notin> set objectPrototypeKeys \<and> b \<noteq> ''fontSize'' \<longrightarrow>
        getCSSVariables (Obj [(a, Obj [(b, Prim v)])])
          = Inr [(''--wp--'' @ kebabCase a @ ''--'' @ kebabCase b, Prim v)])"
proof (intro conjI impI)
  show "getCSSVariables (Obj [(''color'', Obj [(''text'', Prim (PStr ''red''))])])
     = Inr [(''--wp--color--text'', Prim (PStr ''red''))]"
    by code_simp
next
  assume "ownLeafKeys config"
  from getCSSVariables_refines [OF this] obtain flat where
    r: "getCSSVariables (Obj config) = Inr flat" and
    m: "map_of flat = map_of (rev (leafVariables config))"
    by blast
  have "fst ` set flat = dom (map_of flat)"
    by (simp add: dom_map_of_conv_image_fst)
  also have "\<dots> = fst ` set (rev (leafVariables config))"
    by (simp only: m dom_map_of_conv_image_fst)
  also have "\<dots> = variableName ` fst ` set (leafEntries config)"
    by (force simp: leafVariables_def)
  finally show "\<exists>flat. getCSSVariables (Obj config) = Inr flat
           \<and> fst ` set flat = variableName ` fst ` set (leafEntries config)
           \<and> map_of flat = map_of (rev (leafVariables config))"
    using r m by blast
next
  assume "b \<notin> set objectPrototypeKeys"
  then show "getCSSVariables (Obj [(a, Obj [(b, Prim v)])])
          = Inr [(''--wp--'' @ kebabCase a @ ''--'' @ kebabCase b, Prim (leafValue b v))]"
    by (simp add: getCSSVariables_two_levels callFormatter_own)
next
  assume "b \<notin> set objectPrototypeKeys \<and> b \<noteq> ''fontSize''"
  then show "getCSSVariables (Obj [(a, Obj [(b, Prim v)])])
          = Inr [(''--wp--'' @ kebabCase a @ ''--'' @ kebabCase b, Prim v)]"
    by (simp add: getCSSVariables_two_levels callFormatter_own leafValue_def)
qed

theorem getCSSVariables_flattens_witness:
  "ownLeafKeys [(''typography'', Obj [(''fontSize'', Prim (PNum 16)), (''lineHeight'', Prim (PNum 2))]),
                (''color'', Obj [(''text'', Prim (PStr ''red''))])]
   \<and> (\<exists>flat. getCSSVariables
         (Obj [(''typography'', Obj [(''fontSize'', Prim (PNum 16)), (''lineHeight'', Prim (PNum 2))]),
               (''color'', Obj [(''text'', Prim (PStr ''red''))])]) = Inr flat
        \<and> map_of flat ''--wp--typography--font-size'' = Some (Prim (PStr ''16px''))
        \<and> map_of flat ''--wp--typography--line-height'' = Some (Prim (PNum 2))
        \<and> map_of flat ''--wp--color--text'' = Some (Prim (PStr ''red'')))
   \<and> ''text'' \<notin> set objectPrototypeKeys \<and> ''text'' \<noteq> ''fontSize''
   \<and> getCSSVariables (Obj [(''color'', Obj [(''text'', Prim (PStr ''red''))])])
       = Inr [(''--wp--'' @ kebabCase ''color'' @ ''--'' @ kebabCase ''text'', Prim (PStr ''red''))]"
proof -
  let ?c = "[(''typography'', Obj [(''fontSize'', Prim (PNum 16)), (''lineHeight'', Prim (PNum 2))]),
             (''color'', Obj [(''text'', Prim (PStr ''red''))])]"
  have o: "ownLeafKeys ?c"
    by code_simp
  from getCSSVariables_flattens [of ?c] o obtain flat where
    r: "getCSSVariables (Obj ?c) = Inr flat" and
    m: "map_of flat = map_of (rev (leafVariables ?c))"
    by blast
  have "map_of (rev (leafVariables ?c)) ''--wp--typography--font-size'' = Some (Prim (PStr ''16px''))"
    by code_simp
  moreover have "map_of (rev (leafVariables ?c)) ''--wp--typography--line-height'' = Some (Prim (PNum 2))"
    by code_simp
  moreover have "map_of (rev (leafVariables ?c)) ''--wp--color--text'' = Some (Prim (PStr ''red''))"
    by code_simp
  ultimately have e: "\<exists>flat. getCSSVariables (Obj ?c) = Inr flat
        \<and> map_of flat ''--wp--typography--font-size'' = Some (Prim (PStr ''16px''))
        \<and> map_of flat ''--wp--typography--line-height'' = Some (Prim (PNum 2))
        \<and> map_of flat ''--wp--color--text'' = Some (Prim (PStr ''red''))"
    using r m by auto
  have t: "''text'' \<notin> set objectPrototypeKeys \<and> ''text'' \<noteq> ''fontSize''"
    by (simp add: objectPrototypeKeys_def)
  from getCSSVariables_flattens [of "[]" "''text''" "''color''" "PStr ''red''"] t
  have "getCSSVariables (Obj [(''color'', Obj [(''text'', Prim (PStr ''red''))])])
       = Inr [(''--wp--'' @ kebabCase ''color'' @ ''--'' @ kebabCase ''text'', Prim (PStr ''red''))]"
    by blast
  with o e t show ?thesis
    by blast
qed

text \<open>
  C5, as stated, fails twice. A second application to the single-level result
  does not leave the prefix-stripped keys unchanged: it kebab-cases the prefix of
  the first, and \<^verbatim>\<open>--wp--font-size\<close> becomes \<^verbatim>\<open>--wp--wp-font-size\<close>. And kebab-casing
  is not a no-op on every key made of lower-case words: it parts letters from
  digits, and the key \<^verbatim>\<open>h1\<close> is recorded as \<^verbatim>\<open>--wp--h-1\<close>.
\<close>

theorem getCSSVariables_second_pass_counterexample:
  "getCSSVariables (Obj [(''font-size'', Prim (PStr ''16px''))])
     = Inr [(''--wp--font-size'', Prim (PStr ''16px''))]
   \<and> getCSSVariables (Obj [(''--wp--font-size'', Prim (PStr ''16px''))])
     = Inr [(''--wp--wp-font-size'', Prim (PStr ''16px''))]
   \<and> drop 6 ''--wp--wp-font-size'' \<noteq> ''font-size''
   \<and> getCSSVariables (Obj [(''h1'', Prim (PStr ''2em''))])
     = Inr [(''--wp--h-1'', Prim (PStr ''2em''))]
   \<and> kebabCase ''h1'' \<noteq> ''h1''"
  by code_simp

text \<open>
  C5, amended. The keys in dash case are the words of lower-case letters only, of
  digits only or ordinals, separated by single dashes; they are exactly the
  non-empty keys that kebab-casing leaves unchanged. Take a configuration whose
  values are all leaves and whose keys are in dash case (the keys of an object
  being distinct). The flattening changes none of its keys beyond adding the
  prefix \<^verbatim>\<open>--wp--\<close>. When moreover no key is \<^verbatim>\<open>constructor\<close>, no value changes,
  flattening the result with the prefix stripped from its keys gives the same
  result again, and flattening the result as it is gives the keys \<^verbatim>\<open>--wp--wp-\<close>
  followed by the original key.
\<close>

theorem getCSSVariables_dash_case_keys:
  assumes "distinct (map fst config)"
    and "\<forall>(key, v) \<in> set config. dashCase key \<and> \<not> isObject v"
  shows "(\<forall>key. dashCase key \<longleftrightarrow> key \<noteq> [] \<and> kebabCase key = key)
     \<and> (\<forall>key \<in> fst ` set config. kebabCase key = key)
     \<and> (\<exists>flat. getCSSVariables (Obj config) = Inr flat
           \<and> map fst flat = map (\<lambda>key. ''--wp--'' @ key) (map fst config)
           \<and> (''constructor'' \<notin> fst ` set config \<longrightarrow>
                 flat = map (\<lambda>(key, v). (''--wp--'' @ key, v)) config
                 \<and> getCSSVariables (Obj (map (\<lambda>(key, v). (drop 6 key, v)) flat)) = Inr flat
                 \<and> getCSSVariables (Obj flat)
                     = Inr (map (\<lambda>(key, v). (''--wp--wp-'' @ key, v)) config)))"
proof -
  from assms(2) have "\<forall>(key, v) \<in> set config. \<not> isObject v"
    by auto
  from leaves_of_flat [OF this] obtain ls where c: "config = map (\<lambda>(k, p). (k, Prim p)) ls"
    by blast
  have fstc: "map fst config = map fst ls"
    by (simp add: c case_prod_beta comp_def)
  have dk: "\<forall>x \<in> set ls. dashCase (fst x)"
    using assms(2) by (auto simp: c)
  have kb: "\<forall>x \<in> set ls. kebabCase (fst x) = fst x"
    using dk by (auto intro: kebabCase_dashCase)
  have keys: "\<forall>key \<in> fst ` set config. kebabCase key = key"
    using kb by (simp add: c case_prod_beta image_image)
  let ?g = "\<lambda>k p. if k = ''constructor'' then Obj (entries (Prim p)) else Prim p"
  let ?flat = "map (\<lambda>(k, p). (''--wp--'' @ kebabCase k, ?g k p)) ls"
  have mk: "map (kebabCase \<circ> fst) ls = map fst ls"
    using kb by (intro map_cong refl) simp
  have d1: "distinct (map (kebabCase \<circ> fst) ls)"
    using assms(1) by (simp only: mk fstc)
  have f1: "\<forall>(k, p) \<in> set ls. callFormatter (formatterOf k) p = Inr (?g k p)"
    using dk by (auto simp: callFormatter_dashCase)
  have r1: "getCSSVariables (Obj config) = Inr ?flat"
    unfolding c by (rule getCSSVariables_leaves [OF d1 f1])
  have "map fst ?flat = map (\<lambda>key. ''--wp--'' @ key) (map fst ls)"
    unfolding map_map using kb by (intro map_cong refl) (simp add: case_prod_beta)
  then have k1: "map fst ?flat = map (\<lambda>key. ''--wp--'' @ key) (map fst config)"
    by (simp only: fstc)
  have rest: "?flat = map (\<lambda>(key, v). (''--wp--'' @ key, v)) config
      \<and> getCSSVariables (Obj (map (\<lambda>(key, v). (drop 6 key, v)) ?flat)) = Inr ?flat
      \<and> getCSSVariables (Obj ?flat) = Inr (map (\<lambda>(key, v). (''--wp--wp-'' @ key, v)) config)"
    if nc: "''constructor'' \<notin> fst ` set config"
  proof -
    from nc have "''constructor'' \<notin> set (map fst ls)"
      unfolding fstc [symmetric] by simp
    then have nk: "\<forall>x \<in> set ls. fst x \<noteq> ''constructor''"
      by force
    have fl: "?flat = map (\<lambda>(k, p). (''--wp--'' @ k, Prim p)) ls"
      using kb nk by (intro map_cong refl) (simp add: case_prod_beta)
    have a: "?flat = map (\<lambda>(key, v). (''--wp--'' @ key, v)) config"
      unfolding fl by (simp add: c case_prod_beta comp_def)
    have "map (\<lambda>(key, v). (drop 6 key, v)) (map (\<lambda>(k, p). (''--wp--'' @ k, Prim p)) ls) = config"
      by (simp add: c case_prod_beta comp_def)
    then have b: "getCSSVariables (Obj (map (\<lambda>(key, v). (drop 6 key, v)) ?flat)) = Inr ?flat"
      using r1 by (simp only: fl)
    let ?ls2 = "map (\<lambda>(k, p). (''--wp--'' @ k, p)) ls"
    have fl2: "map (\<lambda>(k, p). (k, Prim p)) ?ls2 = ?flat"
      unfolding fl by (simp add: case_prod_beta comp_def)
    have kp: "\<forall>x \<in> set ls. kebabCase (''--wp--'' @ fst x) = ''wp-'' @ fst x"
      using dk kebabCase_prefixed by blast
    have mk2: "map (kebabCase \<circ> fst) ?ls2 = map (\<lambda>k. ''wp-'' @ k) (map fst ls)"
      unfolding map_map using kp
      by (intro map_cong refl) (simp add: case_prod_beta)
    have d2: "distinct (map (kebabCase \<circ> fst) ?ls2)"
      using assms(1) unfolding mk2 fstc by (simp add: distinct_map inj_on_def)
    have f2: "\<forall>(k, p) \<in> set ?ls2. callFormatter (formatterOf k) p = Inr (Prim p)"
      using callFormatter_prefixed by auto
    have g2: "getCSSVariables (Obj (map (\<lambda>(k, p). (k, Prim p)) ?ls2))
            = Inr (map (\<lambda>(k, p). (''--wp--'' @ kebabCase k, Prim p)) ?ls2)"
      by (rule getCSSVariables_leaves [OF d2 f2])
    have "map (\<lambda>(k, p). (''--wp--'' @ kebabCase k, Prim p)) ?ls2
            = map (\<lambda>(k, p). (''--wp--wp-'' @ k, Prim p)) ls"
      unfolding map_map using kp
      by (intro map_cong refl) (simp add: case_prod_beta)
    also have "\<dots> = map (\<lambda>(key, v). (''--wp--wp-'' @ key, v)) config"
      by (simp add: c case_prod_beta comp_def)
    finally have "getCSSVariables (Obj ?flat)
            = Inr (map (\<lambda>(key, v). (''--wp--wp-'' @ key, v)) config)"
      using g2 by (simp only: fl2)
    with a b show ?thesis
      by blast
  qed
  have fixed: "\<forall>key. dashCase key \<longleftrightarrow> key \<noteq> [] \<and> kebabCase key = key"
    by (simp add: dashCase_iff_fixed)
  from fixed keys r1 k1 rest show ?thesis
    by blast
qed

theorem getCSSVariables_dash_case_keys_witness:
  "distinct (map fst [(''font-size'', Prim (PStr ''16px'')), (''color'', Prim (PStr ''red''))])
   \<and> dashCase ''font-size'' \<and> \<not> isObject (Prim (PStr ''16px''))
   \<and> dashCase ''color'' \<and> \<not> isObject (Prim (PStr ''red''))
   \<and> kebabCase ''font-size'' = ''font-size''
   \<and> getCSSVariables (Obj [(''font-size'', Prim (PStr ''16px'')), (''color'', Prim (PStr ''red''))])
       = Inr [(''--wp--font-size'', Prim (PStr ''16px'')), (''--wp--color'', Prim (PStr ''red''))]
   \<and> getCSSVariables
         (Obj (map (\<lambda>(key, v). (drop 6 key, v))
                 [(''--wp--font-size'', Prim (PStr ''16px'')), (''--wp--color'', Prim (PStr ''red''))]))
       = Inr [(''--wp--font-size'', Prim (PStr ''16px'')), (''--wp--color'', Prim (PStr ''red''))]
   \<and> getCSSVariables
         (Obj [(''--wp--font-size'', Prim (PStr ''16px'')), (''--wp--color'', Prim (PStr ''red''))])
       = Inr [(''--wp--wp-font-size'', Prim (PStr ''16px'')),
              (''--wp--wp-color'', Prim (PStr ''red''))]"
proof -
  let ?c = "[(''font-size'', Prim (PStr ''16px'')), (''color'', Prim (PStr ''red''))]"
  let ?flat = "[(''--wp--font-size'', Prim (PStr ''16px'')), (''--wp--color'', Prim (PStr ''red''))]"
  have d: "distinct (map fst ?c)"
    by simp
  have dc: "dashCase ''font-size''" "dashCase ''color''"
    by code_simp+
  then have k: "\<forall>(key, v) \<in> set ?c. dashCase key \<and> \<not> isObject v"
    by simp
  have n: "''constructor'' \<notin> fst ` set ?c"
    by simp
  from getCSSVariables_dash_case_keys [OF d k] n obtain flat where
    kb: "\<forall>key \<in> fst ` set ?c. kebabCase key = key" and
    r: "getCSSVariables (Obj ?c) = Inr flat" and
    f: "flat = map (\<lambda>(key, v). (''--wp--'' @ key, v)) ?c" and
    s: "getCSSVariables (Obj (map (\<lambda>(key, v). (drop 6 key, v)) flat)) = Inr flat" and
    t: "getCSSVariables (Obj flat) = Inr (map (\<lambda>(key, v). (''--wp--wp-'' @ key, v)) ?c)"
    by blast
  have fl: "flat = ?flat"
    by (simp add: f)
  from kb have 1: "kebabCase ''font-size'' = ''font-size''"
    by simp
  from r have 2: "getCSSVariables (Obj ?c) = Inr ?flat"
    by (simp only: fl)
  from s have 3: "getCSSVariables (Obj (map (\<lambda>(key, v). (drop 6 key, v)) ?flat)) = Inr ?flat"
    by (simp only: fl)
  from t have 4: "getCSSVariables (Obj ?flat)
       = Inr [(''--wp--wp-font-size'', Prim (PStr ''16px'')),
              (''--wp--wp-color'', Prim (PStr ''red''))]"
    by (simp add: fl)
  from d dc 1 2 3 4 show ?thesis
    by simp
qed

end
